theory Spec2Isabelle
  imports Complex_Main "HOL-Library.AList" "HOL-Library.Char_ord" "HOL-Library.List_Lexorder"
begin

section \<open>Python values used by the scripts\<close>

text \<open>
  Python integers are unbounded, so every counter is an \<open>int\<close>. A string is the
  list of the bytes of its UTF-8 encoding, so a character outside ASCII is a run of bytes
  from 128 on. \<open>lower\<close> and \<open>upper\<close> are the case mappings of the ASCII letters; on
  a string of ASCII characters they are \<open>str.lower\<close> and \<open>str.upper\<close>. With
  \<open>Char_ord\<close> and \<open>List_Lexorder\<close> the order on \<open>string\<close> is the lexicographic
  order on character codes, which is the order Python's \<open>sorted\<close> uses on \<open>str\<close>.
\<close>

definition lower_char :: "char \<Rightarrow> char" where
  "lower_char c =
     (if CHR ''A'' \<le> c \<and> c \<le> CHR ''Z'' then char_of (of_char c + (32::nat)) else c)"

definition upper_char :: "char \<Rightarrow> char" where
  "upper_char c =
     (if CHR ''a'' \<le> c \<and> c \<le> CHR ''z'' then char_of (of_char c - (32::nat)) else c)"

definition lower :: "string \<Rightarrow> string" where
  "lower s = map lower_char s"

definition upper :: "string \<Rightarrow> string" where
  "upper s = map upper_char s"

text \<open>
  \<open>str.upper\<close> on any string. Outside ASCII Python follows the case mappings of
  Unicode (\<open>str.upper\<close> of a dotless i is \<open>I\<close>, of a sharp s is \<open>SS\<close>); that
  table is not part of the repository, so what \<open>str.upper\<close> returns for a string
  with a character outside ASCII is the parameter \<open>unicode_upper\<close>.
\<close>

definition is_ascii :: "string \<Rightarrow> bool" where
  "is_ascii s = list_all (\<lambda>c. of_char c < (128::nat)) s"

definition str_upper :: "(string \<Rightarrow> string) \<Rightarrow> string \<Rightarrow> string" where
  "str_upper unicode_upper s = (if is_ascii s then upper s else unicode_upper s)"

text \<open>
  A JSON object of counters (\<open>{"critical": 3, ...}\<close>) is a map from key to integer;
  \<open>get0 d k\<close> is Python's \<open>d.get(k, 0)\<close>.
\<close>

type_synonym counts = "string \<rightharpoonup> int"

definition get0 :: "counts \<Rightarrow> string \<Rightarrow> int" where
  "get0 d k = (case d k of None \<Rightarrow> 0 | Some n \<Rightarrow> n)"

definition severities :: "string list" where
  "severities = [''critical'', ''high'', ''medium'', ''low'', ''negligible'', ''unknown'']"

definition categories :: "string list" where
  "categories = [''os_level'', ''app_level'', ''total'']"


section \<open>scan.py: counting Grype matches and writing a snapshot\<close>

record VulnerabilityStats =
  critical :: int
  high :: int
  medium :: int
  low :: int
  negligible :: int
  unknown :: int


definition stats_total :: "VulnerabilityStats \<Rightarrow> int" where
  "stats_total s = critical s + high s + medium s + low s + negligible s + unknown s"

record ImageVulnerabilities =
  image_name :: string
  os_level :: VulnerabilityStats
  app_level :: VulnerabilityStats










text \<open>
  The snapshot document, as \<open>save_results_to_json\<close> writes it and \<open>compare.py\<close>
  reads it. An entry of \<open>images\<close> is a JSON object: \<open>e_image\<close> is its key
  \<open>"image"\<close> (\<open>None\<close> when the key is absent, which \<open>compare.py\<close> answers with a
  \<open>KeyError\<close>); the three blocks are read with \<open>.get(key, {})\<close>, so an absent block is
  the empty map. \<open>summary\<close> maps a category to its block.
\<close>

record image_entry =
  e_image :: "string option"
  e_os_level :: counts
  e_app_level :: counts
  e_total :: counts

record snapshot =
  timestamp :: "string option"
  images :: "image_entry list"
  summary :: "string \<rightharpoonup> counts"

definition stats_block :: "VulnerabilityStats \<Rightarrow> counts" where
  "stats_block s = map_of
     [(''critical'', critical s), (''high'', high s), (''medium'', medium s),
      (''low'', low s), (''negligible'', negligible s), (''unknown'', unknown s),
      (''total'', stats_total s)]"

definition total_block :: "VulnerabilityStats \<Rightarrow> VulnerabilityStats \<Rightarrow> counts" where
  "total_block os app = map_of
     [(''critical'', critical os + critical app), (''high'', high os + high app),
      (''medium'', medium os + medium app), (''low'', low os + low app),
      (''negligible'', negligible os + negligible app),
      (''unknown'', unknown os + unknown app),
      (''total'', stats_total os + stats_total app)]"

definition image_data :: "ImageVulnerabilities \<Rightarrow> image_entry" where
  "image_data result =
     \<lparr>e_image = Some (image_name result),
      e_os_level = stats_block (os_level result),
      e_app_level = stats_block (app_level result),
      e_total = total_block (os_level result) (app_level result)\<rparr>"

definition summary_block ::
  "(ImageVulnerabilities \<Rightarrow> VulnerabilityStats) \<Rightarrow> ImageVulnerabilities list \<Rightarrow> counts" where
  "summary_block level results = map_of
     [(''critical'', sum_list (map (\<lambda>r. critical (level r)) results)),
      (''high'', sum_list (map (\<lambda>r. high (level r)) results)),
      (''medium'', sum_list (map (\<lambda>r. medium (level r)) results)),
      (''low'', sum_list (map (\<lambda>r. low (level r)) results)),
      (''negligible'', sum_list (map (\<lambda>r. negligible (level r)) results)),
      (''unknown'', sum_list (map (\<lambda>r. unknown (level r)) results)),
      (''total'', sum_list (map (\<lambda>r. stats_total (level r)) results))]"

definition summary_total_block :: "ImageVulnerabilities list \<Rightarrow> counts" where
  "summary_total_block results = map_of
     [(''critical'', sum_list (map (\<lambda>r. critical (os_level r) + critical (app_level r)) results)),
      (''high'', sum_list (map (\<lambda>r. high (os_level r) + high (app_level r)) results)),
      (''medium'', sum_list (map (\<lambda>r. medium (os_level r) + medium (app_level r)) results)),
      (''low'', sum_list (map (\<lambda>r. low (os_level r) + low (app_level r)) results)),
      (''negligible'',
         sum_list (map (\<lambda>r. negligible (os_level r) + negligible (app_level r)) results)),
      (''unknown'', sum_list (map (\<lambda>r. unknown (os_level r) + unknown (app_level r)) results)),
      (''total'',
         sum_list (map (\<lambda>r. stats_total (os_level r) + stats_total (app_level r)) results))]"

text \<open>
  \<open>save_results_to_json\<close> builds \<open>output_data\<close> and dumps it to the file; the model
  returns the document. The time of the call (\<open>datetime.now().isoformat()\<close>) is the
  parameter \<open>now\<close>.
\<close>

definition save_results_to_json :: "ImageVulnerabilities list \<Rightarrow> string \<Rightarrow> snapshot" where
  "save_results_to_json results now =
     \<lparr>timestamp = Some now,
      images = map image_data results,
      summary = map_of
        [(''os_level'', summary_block os_level results),
         (''app_level'', summary_block app_level results),
         (''total'', summary_total_block results)]\<rparr>"


section \<open>compare.py: the drift between two snapshots\<close>

datatype py_error = KeyError | AttributeError

text \<open>
  A Python \<open>dict\<close> keyed by strings is an association list in insertion order:
  \<open>AList.update k v\<close> is \<open>d[k] = v\<close> (an existing key keeps its place and takes
  the new value, a new key goes to the end), \<open>map_of d k\<close> is \<open>d.get(k)\<close> and
  \<open>map fst d\<close> is \<open>d.keys()\<close>.

  \<open>index_images\<close> is the comprehension \<open>{img["image"]: img for img in images}\<close>:
  a later entry with the same identifier replaces an earlier one, and an entry without
  the key raises \<open>KeyError\<close>.
\<close>

fun index_images ::
  "image_entry list \<Rightarrow> (string \<times> image_entry) list \<Rightarrow> py_error + (string \<times> image_entry) list" where
  "index_images [] d = Inr d"
| "index_images (img # imgs) d =
     (case e_image img of
        None \<Rightarrow> Inl KeyError
      | Some k \<Rightarrow> index_images imgs (AList.update k img d))"

record image_diff =
  d_image :: string
  d_status :: string
  os_level_change :: counts
  app_level_change :: counts
  total_change :: counts

record drift =
  previous_timestamp :: "string option"
  current_timestamp :: "string option"
  d_images :: "image_diff list"
  d_summary :: "string \<rightharpoonup> counts"

text \<open>The loop over the six severities that fills one change block:
  \<open>curr.get(severity, 0) - prev.get(severity, 0)\<close> under each severity.\<close>

definition level_change :: "counts \<Rightarrow> counts \<Rightarrow> counts" where
  "level_change curr_block prev_block =
     map_of (map (\<lambda>severity. (severity, get0 curr_block severity - get0 prev_block severity))
                 severities)"

text \<open>\<open>block s category\<close> is \<open>s.get(category, {})\<close>.\<close>

definition block :: "(string \<rightharpoonup> counts) \<Rightarrow> string \<Rightarrow> counts" where
  "block s category = (case s category of None \<Rightarrow> Map.empty | Some b \<Rightarrow> b)"

text \<open>
  The body of the loop over \<open>sorted(all_images)\<close>. An indexed entry holds the key
  \<open>"image"\<close>, so as a Python value it is a non-empty dict and therefore true: the
  tests \<open>prev_img and curr_img\<close> are tests of presence.
\<close>

definition image_diff_of ::
  "(string \<times> image_entry) list \<Rightarrow> (string \<times> image_entry) list \<Rightarrow> string \<Rightarrow> image_diff" where
  "image_diff_of prev_images curr_images img_id =
     (case (map_of prev_images img_id, map_of curr_images img_id) of
        (Some prev_img, Some curr_img) \<Rightarrow>
          \<lparr>d_image = img_id, d_status = ''compared'',
           os_level_change = level_change (e_os_level curr_img) (e_os_level prev_img),
           app_level_change = level_change (e_app_level curr_img) (e_app_level prev_img),
           total_change = level_change (e_total curr_img) (e_total prev_img)\<rparr>
      | (Some prev_img, None) \<Rightarrow>
          \<lparr>d_image = img_id, d_status = ''removed'',
           os_level_change = Map.empty, app_level_change = Map.empty, total_change = Map.empty\<rparr>
      | (None, Some curr_img) \<Rightarrow>
          \<lparr>d_image = img_id, d_status = ''new'',
           os_level_change = Map.empty, app_level_change = Map.empty, total_change = Map.empty\<rparr>
      | (None, None) \<Rightarrow>
          \<lparr>d_image = img_id, d_status = ''unknown'',
           os_level_change = Map.empty, app_level_change = Map.empty, total_change = Map.empty\<rparr>)"

definition all_images :: "(string \<times> 'a) list \<Rightarrow> (string \<times> 'a) list \<Rightarrow> string list" where
  "all_images prev_images curr_images =
     sort (remdups (map fst prev_images @ map fst curr_images))"

definition calculate_diff :: "snapshot \<Rightarrow> snapshot \<Rightarrow> py_error + drift" where
  "calculate_diff previous current =
     (case index_images (images previous) [] of
        Inl e \<Rightarrow> Inl e
      | Inr prev_images \<Rightarrow>
     (case index_images (images current) [] of
        Inl e \<Rightarrow> Inl e
      | Inr curr_images \<Rightarrow>
          Inr \<lparr>previous_timestamp = timestamp previous,
               current_timestamp = timestamp current,
               d_images = map (image_diff_of prev_images curr_images)
                              (all_images prev_images curr_images),
               d_summary = map_of (map (\<lambda>category.
                   (category, level_change (block (summary current) category)
                                           (block (summary previous) category))) categories)\<rparr>))"

text \<open>Reading a level of a snapshot entry and of a drift entry by its name.\<close>

definition entry_level :: "string \<Rightarrow> image_entry \<Rightarrow> counts" where
  "entry_level category e =
     (if category = ''os_level'' then e_os_level e
      else if category = ''app_level'' then e_app_level e
      else e_total e)"

definition diff_level :: "string \<Rightarrow> image_diff \<Rightarrow> counts" where
  "diff_level category x =
     (if category = ''os_level'' then os_level_change x
      else if category = ''app_level'' then app_level_change x
      else total_change x)"


text \<open>The image identifiers of a snapshot: the values under \<open>"image"\<close> of its entries.\<close>

definition image_ids :: "snapshot \<Rightarrow> string set" where
  "image_ids s = set (List.map_filter e_image (images s))"


subsection \<open>Example scan results and snapshots\<close>

text \<open>
  Four scan results and the snapshots \<open>save_results_to_json\<close> writes for them:
  image \<open>app:1\<close> is scanned twice (five critical findings before, two after), image
  \<open>old:1\<close> only in the earlier run and image \<open>db:2\<close> only in the later run.
\<close>

definition app1_before :: ImageVulnerabilities where
  "app1_before = \<lparr>image_name = ''app:1'',
     os_level = \<lparr>critical = 3, high = 0, medium = 0, low = 0, negligible = 0, unknown = 0\<rparr>,
     app_level = \<lparr>critical = 2, high = 1, medium = 0, low = 0, negligible = 0, unknown = 0\<rparr>\<rparr>"

definition app1_after :: ImageVulnerabilities where
  "app1_after = \<lparr>image_name = ''app:1'',
     os_level = \<lparr>critical = 1, high = 0, medium = 0, low = 0, negligible = 0, unknown = 0\<rparr>,
     app_level = \<lparr>critical = 1, high = 1, medium = 0, low = 0, negligible = 0, unknown = 0\<rparr>\<rparr>"

definition old1_scan :: ImageVulnerabilities where
  "old1_scan = \<lparr>image_name = ''old:1'',
     os_level = \<lparr>critical = 0, high = 1, medium = 0, low = 0, negligible = 0, unknown = 0\<rparr>,
     app_level = \<lparr>critical = 0, high = 0, medium = 0, low = 0, negligible = 0, unknown = 0\<rparr>\<rparr>"

definition db2_scan :: ImageVulnerabilities where
  "db2_scan = \<lparr>image_name = ''db:2'',
     os_level = \<lparr>critical = 1, high = 0, medium = 0, low = 0, negligible = 0, unknown = 0\<rparr>,
     app_level = \<lparr>critical = 0, high = 0, medium = 0, low = 0, negligible = 0, unknown = 2\<rparr>\<rparr>"

definition snapshot_before :: snapshot where
  "snapshot_before = save_results_to_json [app1_before, old1_scan] ''2024-05-01T10:00:00''"

definition snapshot_after :: snapshot where
  "snapshot_after = save_results_to_json [app1_after, db2_scan] ''2024-05-02T10:00:00''"

definition app1_snapshot_before :: snapshot where
  "app1_snapshot_before = save_results_to_json [app1_before] ''2024-05-01T10:00:00''"

definition app1_snapshot_after :: snapshot where
  "app1_snapshot_after = save_results_to_json [app1_after] ''2024-05-02T10:00:00''"


section \<open>compare.py: the Markdown report\<close>

text \<open>\<open>full_image.split('/')[-1]\<close>: what follows the last \<open>/\<close>.\<close>

definition get_image_name :: "string \<Rightarrow> string" where
  "get_image_name full_image = rev (takeWhile (\<lambda>c. c \<noteq> CHR ''/'') (rev full_image))"

text \<open>The comprehension
  \<open>{get_image_name(full_path): (img, full_path) for full_path, img in images.items()}\<close>.\<close>

definition by_name ::
  "(string \<times> image_entry) list \<Rightarrow> (string \<times> (image_entry \<times> string)) list" where
  "by_name imgs =
     foldl (\<lambda>d (full_path, img). AList.update (get_image_name full_path) (img, full_path) d)
           [] imgs"

text \<open>Decimal numerals: \<open>str_int\<close> is \<open>f"{n}"\<close> and \<open>fmt_signed\<close> is
  \<open>f"{n:+d}"\<close>, which writes a sign also for zero and the positive numbers.\<close>

function str_nat :: "nat \<Rightarrow> string" where
  "str_nat n =
     (if n < 10 then [char_of (48 + n)]
      else str_nat (n div 10) @ [char_of (48 + n mod 10)])"
  by pat_completeness auto
termination
  by (relation "measure id") auto

definition str_int :: "int \<Rightarrow> string" where
  "str_int i = (if i < 0 then ''-'' @ str_nat (nat (- i)) else str_nat (nat i))"

definition fmt_signed :: "int \<Rightarrow> string" where
  "fmt_signed i = (if i < 0 then ''-'' @ str_nat (nat (- i)) else ''+'' @ str_nat (nat i))"

definition capitalize :: "string \<Rightarrow> string" where
  "capitalize s = (case s of [] \<Rightarrow> [] | c # cs \<Rightarrow> upper_char c # lower cs)"

text \<open>Strings are the bytes of their UTF-8 encoding: the arrow of the source is three
  bytes and the magnifying glass of the title four.\<close>

definition arrow :: string where
  "arrow = [char_of (226::nat), char_of (134::nat), char_of (146::nat)]"

definition magnifier :: string where
  "magnifier = [char_of (240::nat), char_of (159::nat), char_of (148::nat), char_of (142::nat)]"

definition image_display :: "string \<Rightarrow> string \<Rightarrow> string" where
  "image_display prev_full_path curr_full_path =
     (if prev_full_path \<noteq> curr_full_path
      then ''`'' @ prev_full_path @ ''` '' @ arrow @ '' `'' @ curr_full_path @ ''`''
      else ''`'' @ curr_full_path @ ''`'')"

definition total_str :: "int \<Rightarrow> int \<Rightarrow> int \<Rightarrow> int \<Rightarrow> int \<Rightarrow> string" where
  "total_str t c h m l =
     ''**'' @ str_int t @ '' total** ('' @ str_int c @ ''C / '' @ str_int h @ ''H / '' @
     str_int m @ ''M / '' @ str_int l @ ''L)''"

text \<open>The row of the summary table for a pair of entries found under one name.\<close>

definition summary_line :: "image_entry \<Rightarrow> string \<Rightarrow> image_entry \<Rightarrow> string \<Rightarrow> string" where
  "summary_line prev_img prev_full_path curr_img curr_full_path =
     (let before_total = get0 (e_total prev_img) ''total'';
          after_total = get0 (e_total curr_img) ''total'';
          change_total = after_total - before_total;
          prev_total = e_total prev_img;
          curr_total = e_total curr_img;
          c_before = get0 prev_total ''critical'';
          h_before = get0 prev_total ''high'';
          m_before = get0 prev_total ''medium'';
          l_before = get0 prev_total ''low'';
          c_after = get0 curr_total ''critical'';
          h_after = get0 curr_total ''high'';
          m_after = get0 curr_total ''medium'';
          l_after = get0 curr_total ''low'';
          c_change = c_after - c_before;
          h_change = h_after - h_before;
          m_change = m_after - m_before;
          l_change = l_after - l_before;
          before_str = total_str before_total c_before h_before m_before l_before;
          after_str = total_str after_total c_after h_after m_after l_after;
          change_str = ''**'' @ fmt_signed change_total @ ''** total'' @
            (if c_change \<noteq> 0 \<or> h_change \<noteq> 0 \<or> m_change \<noteq> 0 \<or> l_change \<noteq> 0
             then '' (**'' @ fmt_signed c_change @ ''C / '' @ fmt_signed h_change @ ''H / '' @
                  fmt_signed m_change @ ''M / '' @ fmt_signed l_change @ ''L**)''
             else [])
      in ''| '' @ image_display prev_full_path curr_full_path @ '' | '' @ before_str @
         '' | '' @ after_str @ '' | '' @ change_str @ '' |'')"

text \<open>The body of the first loop over \<open>all_image_names\<close>: the lines it appends,
  one table row for a name found in both snapshots and nothing otherwise.\<close>

definition summary_row ::
  "(string \<times> (image_entry \<times> string)) list \<Rightarrow> (string \<times> (image_entry \<times> string)) list \<Rightarrow>
   string \<Rightarrow> string list" where
  "summary_row prev_by_name curr_by_name name =
     (case (map_of prev_by_name name, map_of curr_by_name name) of
        (Some (prev_img, prev_full_path), Some (curr_img, curr_full_path)) \<Rightarrow>
          [summary_line prev_img prev_full_path curr_img curr_full_path]
      | _ \<Rightarrow> [])"

definition report_severities :: "string list" where
  "report_severities = [''critical'', ''high'', ''medium'', ''low'', ''negligible'']"

text \<open>The loop that sets \<open>has_changes\<close> and breaks at the first severity whose two
  counts differ.\<close>

primrec has_changes_loop :: "counts \<Rightarrow> counts \<Rightarrow> string list \<Rightarrow> bool" where
  "has_changes_loop prev_total curr_total [] = False"
| "has_changes_loop prev_total curr_total (severity # rest) =
     (if get0 prev_total severity \<noteq> get0 curr_total severity then True
      else has_changes_loop prev_total curr_total rest)"

definition severity_row :: "counts \<Rightarrow> counts \<Rightarrow> string \<Rightarrow> string" where
  "severity_row prev_total curr_total severity =
     (let before_count = get0 prev_total severity;
          after_count = get0 curr_total severity;
          delta = after_count - before_count
      in ''| '' @ capitalize severity @ '' | '' @ str_int before_count @ '' | '' @
         str_int after_count @
         '' | **'' @ fmt_signed delta @ ''** |'')"

text \<open>The lines of one breakdown section.\<close>

definition section_lines ::
  "image_entry \<Rightarrow> string \<Rightarrow> image_entry \<Rightarrow> string \<Rightarrow> string list" where
  "section_lines prev_img prev_full_path curr_img curr_full_path =
     (let prev_total = e_total prev_img;
          curr_total = e_total curr_img
      in [''#### '' @ image_display prev_full_path curr_full_path,
          ''| Severity | Before | After | Delta |'',
          ''|---|---:|---:|---:|''] @
         map (severity_row prev_total curr_total) report_severities @
         [''| **Total** | **'' @ str_int (get0 prev_total ''total'') @ ''** | **'' @
            str_int (get0 curr_total ''total'') @ ''** | **'' @
            fmt_signed (get0 curr_total ''total'' - get0 prev_total ''total'') @ ''** |'',
          []])"

text \<open>The body of the second loop over \<open>all_image_names\<close>: the lines of one
  breakdown section, or nothing.\<close>

definition breakdown_section ::
  "(string \<times> (image_entry \<times> string)) list \<Rightarrow> (string \<times> (image_entry \<times> string)) list \<Rightarrow>
   string \<Rightarrow> string list" where
  "breakdown_section prev_by_name curr_by_name name =
     (case (map_of prev_by_name name, map_of curr_by_name name) of
        (Some (prev_img, prev_full_path), Some (curr_img, curr_full_path)) \<Rightarrow>
          (if has_changes_loop (e_total prev_img) (e_total curr_img) report_severities
           then section_lines prev_img prev_full_path curr_img curr_full_path
           else [])
      | _ \<Rightarrow> [])"

definition newline :: string where
  "newline = [char_of (10::nat)]"

text \<open>
  The list \<open>markdown\<close> at the end of \<open>generate_markdown_report\<close>. The report
  written to the file is \<open>"\n".join(markdown)\<close>; the model returns the lines.
\<close>

definition report_lines :: "snapshot \<Rightarrow> snapshot \<Rightarrow> py_error + string list" where
  "report_lines previous current =
     (case index_images (images previous) [] of
        Inl e \<Rightarrow> Inl e
      | Inr prev_images \<Rightarrow>
     (case index_images (images current) [] of
        Inl e \<Rightarrow> Inl e
      | Inr curr_images \<Rightarrow>
          (let prev_by_name = by_name prev_images;
               curr_by_name = by_name curr_images;
               all_image_names = all_images prev_by_name curr_by_name
           in Inr ([''## '' @ magnifier @ '' Vulnerability Summary'' @ newline,
                    ''| Image | Before | After | Change |'',
                    ''|---|---:|---:|---:|''] @
                   concat (map (summary_row prev_by_name curr_by_name) all_image_names) @
                   [[], ''### Breakdown by Severity'' @ newline] @
                   concat (map (breakdown_section prev_by_name curr_by_name) all_image_names)))))"

primrec join_lines :: "string list \<Rightarrow> string" where
  "join_lines [] = []"
| "join_lines (l # ls) = (if ls = [] then l else l @ newline @ join_lines ls)"

definition generate_markdown_report :: "snapshot \<Rightarrow> snapshot \<Rightarrow> py_error + string" where
  "generate_markdown_report previous current =
     (case report_lines previous current of
        Inl e \<Rightarrow> Inl e
      | Inr markdown \<Rightarrow> Inr (join_lines markdown))"

text \<open>
  The entries of the two snapshots that the report pairs: for every name, in sorted
  order, the entries of the previous snapshot whose identifier has that name after the
  last \<open>/\<close>, each with the entries of the current snapshot of that name.
\<close>

definition entry_id :: "image_entry \<Rightarrow> string" where
  "entry_id e = (case e_image e of None \<Rightarrow> [] | Some i \<Rightarrow> i)"

definition entry_name :: "image_entry \<Rightarrow> string" where
  "entry_name e = get_image_name (entry_id e)"



definition pair_changed :: "image_entry \<times> image_entry \<Rightarrow> bool" where
  "pair_changed pair =
     has_changes_loop (e_total (fst pair)) (e_total (snd pair)) report_severities"

definition pair_row :: "image_entry \<times> image_entry \<Rightarrow> string" where
  "pair_row pair =
     summary_line (fst pair) (entry_id (fst pair)) (snd pair) (entry_id (snd pair))"







text \<open>Two images \<open>a/x:1\<close> and \<open>b/x:1\<close> of one name after the last \<open>/\<close>,
  scanned twice: the critical count of the first goes from five to two, the second is
  unchanged.\<close>

definition mirror_a_before :: ImageVulnerabilities where
  "mirror_a_before = \<lparr>image_name = ''a/x:1'',
     os_level = \<lparr>critical = 5, high = 0, medium = 0, low = 0, negligible = 0, unknown = 0\<rparr>,
     app_level = \<lparr>critical = 0, high = 0, medium = 0, low = 0, negligible = 0, unknown = 0\<rparr>\<rparr>"

definition mirror_a_after :: ImageVulnerabilities where
  "mirror_a_after = \<lparr>image_name = ''a/x:1'',
     os_level = \<lparr>critical = 2, high = 0, medium = 0, low = 0, negligible = 0, unknown = 0\<rparr>,
     app_level = \<lparr>critical = 0, high = 0, medium = 0, low = 0, negligible = 0, unknown = 0\<rparr>\<rparr>"

definition mirror_b :: ImageVulnerabilities where
  "mirror_b = \<lparr>image_name = ''b/x:1'',
     os_level = \<lparr>critical = 0, high = 1, medium = 0, low = 0, negligible = 0, unknown = 0\<rparr>,
     app_level = \<lparr>critical = 0, high = 0, medium = 0, low = 0, negligible = 0, unknown = 0\<rparr>\<rparr>"

definition mirror_snapshot_before :: snapshot where
  "mirror_snapshot_before = save_results_to_json [mirror_a_before, mirror_b] ''2024-05-01T10:00:00''"

definition mirror_snapshot_after :: snapshot where
  "mirror_snapshot_after = save_results_to_json [mirror_a_after, mirror_b] ''2024-05-02T10:00:00''"


section \<open>merge-scan-results.py: normalising and merging findings\<close>

text \<open>\<open>severity.upper() if severity else "UNKNOWN"\<close>: the empty string is the false
  string.\<close>

definition normalize_severity :: "(string \<Rightarrow> string) \<Rightarrow> string \<Rightarrow> string" where
  "normalize_severity unicode_upper severity =
     (if severity \<noteq> [] then str_upper unicode_upper severity else ''UNKNOWN'')"

text \<open>The six severities of a finding, in upper case.\<close>

definition severity_names :: "string list" where
  "severity_names = [''CRITICAL'', ''HIGH'', ''MEDIUM'', ''LOW'', ''NEGLIGIBLE'', ''UNKNOWN'']"


subsection \<open>Findings and the Trivy document\<close>

text \<open>
  A value read by \<open>json.load\<close>. An object is the list of the items of the Python
  dict, each key once, in the order of the document. \<open>JNaN\<close> and \<open>JInf\<close> are the
  constants \<open>NaN\<close> and \<open>Infinity\<close>, which \<open>json.load\<close> accepts. \<open>JNull\<close> is
  \<open>None\<close>.
\<close>

datatype json =
    JNull
  | JBool bool
  | JNum real
  | JNaN
  | JInf bool
  | JStr string
  | JArr "json list"
  | JObj "(string \<times> json) list"

text \<open>The truth value of a Python value: \<open>None\<close>, \<open>False\<close>, zero, the empty
  string, the empty list and the empty dict are false.\<close>

definition truthy :: "json \<Rightarrow> bool" where
  "truthy v =
     (case v of
        JNull \<Rightarrow> False
      | JBool b \<Rightarrow> b
      | JNum x \<Rightarrow> x \<noteq> 0
      | JNaN \<Rightarrow> True
      | JInf b \<Rightarrow> True
      | JStr s \<Rightarrow> s \<noteq> []
      | JArr xs \<Rightarrow> xs \<noteq> []
      | JObj kvs \<Rightarrow> kvs \<noteq> [])"

text \<open>
  A normalised finding is the dict built by \<open>parse_trivy_results\<close> and
  \<open>parse_grype_results\<close>. Its keys are the fields of the record; \<open>vuln_id\<close> is the
  key \<open>"id"\<close> and \<open>vuln_type\<close> the key \<open>"type"\<close>. \<open>found_by\<close> is \<open>None\<close>
  as long as the dict has no such key: the parsers do not set it. The four CVSS fields
  hold whatever value the document has under the key that was selected.
\<close>

record finding =
  vuln_id :: string
  package :: string
  version :: string
  severity :: string
  title :: string
  description :: string
  fixed_version :: string
  cvss_score :: json
  cvss_v2_score :: json
  cvss_v3_score :: json
  cvss_vector :: json
  references :: "string list"
  target :: string
  vuln_type :: string
  source :: string
  found_by :: "string list option"

text \<open>
  A Trivy vulnerability and a Trivy result. A field of type \<open>string option\<close> is a key
  read with \<open>.get(key, "")\<close>, \<open>None\<close> when the key is absent. \<open>CVSS\<close> is the
  value under the key \<open>"CVSS"\<close>, \<open>None\<close> when the key is absent: any JSON value.
\<close>

record trivy_vuln =
  VulnerabilityID :: "string option"
  PkgName :: "string option"
  InstalledVersion :: "string option"
  Severity :: "string option"
  Title :: "string option"
  Description :: "string option"
  FixedVersion :: "string option"
  References :: "string list"
  CVSS :: "json option"

record trivy_result =
  Target :: "string option"
  ResultType :: "string option"
  Vulnerabilities :: "trivy_vuln list"

definition get_str :: "string option \<Rightarrow> string" where
  "get_str x = (case x of None \<Rightarrow> [] | Some s \<Rightarrow> s)"

text \<open>
  The body of the loop over \<open>cvss_data.values()\<close>, on the triple
  \<open>(cvss_v2_score, cvss_v3_score, cvss_vector)\<close>. A value that is not a dict is
  passed over. In a dict \<open>d\<close>, \<open>"K" in source_data\<close> is \<open>map_of d K \<noteq> None\<close> and
  \<open>source_data["K"]\<close> the value found, which may be \<open>null\<close> or of any other type.
\<close>

definition cvss_step :: "json \<times> json \<times> json \<Rightarrow> json \<Rightarrow> json \<times> json \<times> json" where
  "cvss_step acc source_data =
     (case source_data of
        JObj d \<Rightarrow>
          (case acc of (v2, v3, vec) \<Rightarrow>
            ((if \<not> truthy v2 \<and> map_of d ''V2Score'' \<noteq> None
              then the (map_of d ''V2Score'') else v2),
             (if \<not> truthy v3 \<and> map_of d ''V3Score'' \<noteq> None
              then the (map_of d ''V3Score'') else v3),
             (if \<not> truthy vec \<and> map_of d ''V3Vector'' \<noteq> None
              then the (map_of d ''V3Vector'')
              else if \<not> truthy vec \<and> map_of d ''V2Vector'' \<noteq> None
              then the (map_of d ''V2Vector'')
              else vec)))
      | _ \<Rightarrow> acc)"

definition select_cvss :: "(string \<times> json) list \<Rightarrow> json \<times> json \<times> json" where
  "select_cvss cvss_data = foldl cvss_step (JNull, JNull, JNull) (map snd cvss_data)"

text \<open>
  \<open>cvss_data = vuln.get("CVSS", {})\<close> followed by \<open>cvss_data.values()\<close>: an absent key
  gives the empty dict, a dict gives its items, and the values that have no method
  \<open>values\<close> raise \<open>AttributeError\<close>.
\<close>

definition cvss_items :: "json option \<Rightarrow> py_error + (string \<times> json) list" where
  "cvss_items c =
     (case c of
        None \<Rightarrow> Inr []
      | Some (JObj items) \<Rightarrow> Inr items
      | Some _ \<Rightarrow> Inl AttributeError)"

text \<open>The body of the loop over the vulnerabilities of one result: the dict
  \<open>normalized\<close>, or the exception raised on the way.\<close>

definition normalize_trivy ::
  "(string \<Rightarrow> string) \<Rightarrow> string \<Rightarrow> string \<Rightarrow> trivy_vuln \<Rightarrow> py_error + finding" where
  "normalize_trivy unicode_upper tgt ty vuln =
     (case cvss_items (CVSS vuln) of
        Inl e \<Rightarrow> Inl e
      | Inr cvss_data \<Rightarrow>
         (case select_cvss cvss_data of (v2, v3, vec) \<Rightarrow>
            Inr \<lparr>vuln_id = get_str (VulnerabilityID vuln),
                 package = get_str (PkgName vuln),
                 version = get_str (InstalledVersion vuln),
                 severity = normalize_severity unicode_upper (get_str (Severity vuln)),
                 title = get_str (Title vuln),
                 description = get_str (Description vuln),
                 fixed_version = get_str (FixedVersion vuln),
                 cvss_score = (if truthy v3 then v3 else v2),
                 cvss_v2_score = v2,
                 cvss_v3_score = v3,
                 cvss_vector = vec,
                 references = References vuln,
                 target = tgt,
                 vuln_type = ty,
                 source = ''trivy'',
                 found_by = None\<rparr>))"

text \<open>The findings appended one after the other, up to the first exception.\<close>

fun collect :: "(py_error + 'a) list \<Rightarrow> py_error + 'a list" where
  "collect [] = Inr []"
| "collect (Inl e # rest) = Inl e"
| "collect (Inr x # rest) = (case collect rest of Inl e \<Rightarrow> Inl e | Inr xs \<Rightarrow> Inr (x # xs))"

text \<open>\<open>parse_trivy_results\<close> on \<open>trivy_data.get("Results", [])\<close>.\<close>

definition parse_trivy_results ::
  "(string \<Rightarrow> string) \<Rightarrow> trivy_result list \<Rightarrow> py_error + finding list" where
  "parse_trivy_results unicode_upper results =
     collect (concat (map (\<lambda>result.
        map (normalize_trivy unicode_upper (get_str (Target result)) (get_str (ResultType result)))
            (Vulnerabilities result)) results))"

text \<open>The sources of a \<open>CVSS\<close> map that are dicts, in order.\<close>

definition source_dicts :: "(string \<times> json) list \<Rightarrow> (string \<times> json) list list" where
  "source_dicts cvss_data =
     concat (map (\<lambda>(name, v). case v of JObj d \<Rightarrow> [d] | _ \<Rightarrow> []) cvss_data)"

text \<open>The values the sources hold under a key, in order.\<close>

definition values_under :: "string \<Rightarrow> (string \<times> json) list list \<Rightarrow> json list" where
  "values_under k ds = List.map_filter (\<lambda>d. map_of d k) ds"

text \<open>The first true value of a list of values, \<open>None\<close> if there is none.\<close>

definition first_truthy :: "json list \<Rightarrow> json" where
  "first_truthy xs = (case List.find truthy xs of None \<Rightarrow> JNull | Some x \<Rightarrow> x)"

text \<open>What one source offers as the vector: the value under \<open>V3Vector\<close> when the key
  is present, whatever the value, and the value under \<open>V2Vector\<close> otherwise.\<close>

definition offered_vector :: "(string \<times> json) list \<Rightarrow> json option" where
  "offered_vector d =
     (case map_of d ''V3Vector'' of Some x \<Rightarrow> Some x | None \<Rightarrow> map_of d ''V2Vector'')"

definition offered_vectors :: "(string \<times> json) list list \<Rightarrow> json list" where
  "offered_vectors ds = List.map_filter offered_vector ds"

text \<open>A vulnerability of an old CVE: the first source holds version 2 data only, the
  second version 3 data only.\<close>

definition old_cve_sources :: "(string \<times> json) list" where
  "old_cve_sources =
     [(''nvd'', JObj [(''V2Vector'', JStr ''AV:N/AC:L/Au:N/C:P/I:N/A:N''),
                      (''V2Score'', JNum 5)]),
      (''redhat'', JObj [(''V3Vector'', JStr ''CVSS:3.1/AV:N/AC:L/PR:N/UI:N/S:U/C:H/I:N/A:N''),
                         (''V3Score'', JNum 7.5)])]"

definition old_cve :: trivy_vuln where
  "old_cve =
     \<lparr>VulnerabilityID = Some ''CVE-2014-0160'', PkgName = Some ''openssl'',
      InstalledVersion = Some ''1.0.1e'', Severity = Some ''High'', Title = None,
      Description = Some ''heartbeat read overrun'', FixedVersion = Some ''1.0.1g'',
      References = [], CVSS = Some (JObj old_cve_sources)\<rparr>"

definition old_cve_document :: "trivy_result list" where
  "old_cve_document =
     [\<lparr>Target = Some ''app:1 (debian 12)'', ResultType = Some ''debian'',
       Vulnerabilities = [old_cve]\<rparr>]"

text \<open>A source whose \<open>V3Vector\<close> is \<open>null\<close> next to a version 2 vector.\<close>

definition null_v3_sources :: "(string \<times> json) list" where
  "null_v3_sources =
     [(''nvd'', JObj [(''V3Vector'', JNull), (''V2Vector'', JStr ''AV:N'')])]"


subsection \<open>Merging: findings as objects\<close>

text \<open>
  \<open>merge_vulnerabilities\<close> assigns to keys of the dicts it is given, and the dicts
  it returns are those same objects. So a finding is an object at an address, the heap
  maps an address to the dict stored there, and a sequence of findings is a list of
  addresses; the same address may occur twice, in one list or in both.
\<close>

type_synonym addr = nat

type_synonym heap = "addr \<Rightarrow> finding"

type_synonym vuln_key = "string \<times> string \<times> string"

definition create_vuln_key :: "finding \<Rightarrow> vuln_key" where
  "create_vuln_key vuln = (vuln_id vuln, lower (package vuln), version vuln)"

record merge_stats =
  trivy_only :: int
  grype_only :: int
  both :: int

text \<open>The first loop: \<open>vuln["found_by"] = ["trivy"]; merged[key] = vuln\<close>. The
  dict \<open>merged\<close> maps a key to the address of a finding.\<close>

definition add_trivy ::
  "heap \<times> (vuln_key \<times> addr) list \<Rightarrow> addr \<Rightarrow> heap \<times> (vuln_key \<times> addr) list" where
  "add_trivy st vuln =
     (case st of (h, merged) \<Rightarrow>
        (let key = create_vuln_key (h vuln)
         in (h(vuln := (h vuln)\<lparr>found_by := Some [''trivy'']\<rparr>),
             AList.update key vuln merged)))"

text \<open>
  The branch of the second loop for a key that is in \<open>merged\<close>: four statements on
  \<open>existing\<close>, each reading \<open>vuln\<close> and \<open>existing\<close> from the heap as the statement
  before left it (the two may be the same object). \<open>append\<close> on a dict without the key
  \<open>found_by\<close> would raise; every object in \<open>merged\<close> has the key. The order of
  \<open>list(existing_refs | new_refs)\<close> is not fixed by Python; the model keeps the order
  of first occurrence.
\<close>

definition merge_into :: "addr \<Rightarrow> addr \<Rightarrow> heap \<Rightarrow> heap" where
  "merge_into existing vuln h =
     (let h1 = h(existing := (h existing)
                   \<lparr>found_by := map_option (\<lambda>l. l @ [''grype'']) (found_by (h existing))\<rparr>);
          h2 = (if length (description (h1 vuln)) > length (description (h1 existing))
                then h1(existing := (h1 existing)\<lparr>description := description (h1 vuln)\<rparr>)
                else h1);
          h3 = (if fixed_version (h2 existing) = [] \<and> fixed_version (h2 vuln) \<noteq> []
                then h2(existing := (h2 existing)\<lparr>fixed_version := fixed_version (h2 vuln)\<rparr>)
                else h2)
      in h3(existing := (h3 existing)
              \<lparr>references := remdups (references (h3 existing) @ references (h3 vuln))\<rparr>))"

definition add_grype ::
  "heap \<times> (vuln_key \<times> addr) list \<times> merge_stats \<Rightarrow> addr \<Rightarrow>
   heap \<times> (vuln_key \<times> addr) list \<times> merge_stats" where
  "add_grype st vuln =
     (case st of (h, merged, stats) \<Rightarrow>
        (let key = create_vuln_key (h vuln)
         in case map_of merged key of
              Some existing \<Rightarrow>
                (merge_into existing vuln h, merged, stats\<lparr>both := both stats + 1\<rparr>)
            | None \<Rightarrow>
                (h(vuln := (h vuln)\<lparr>found_by := Some [''grype'']\<rparr>),
                 AList.update key vuln merged,
                 stats\<lparr>grype_only := grype_only stats + 1\<rparr>)))"

text \<open>
  \<open>merge_vulnerabilities\<close> returns \<open>list(merged.values())\<close> and the statistics; the
  model returns the heap after the call as well.
\<close>

definition merge_vulnerabilities ::
  "heap \<Rightarrow> addr list \<Rightarrow> addr list \<Rightarrow> heap \<times> addr list \<times> merge_stats" where
  "merge_vulnerabilities h trivy_vulns grype_vulns =
     (case foldl add_trivy (h, []) trivy_vulns of (h1, merged1) \<Rightarrow>
      case foldl add_grype (h1, merged1, \<lparr>trivy_only = 0, grype_only = 0, both = 0\<rparr>)
                 grype_vulns of (h2, merged2, stats) \<Rightarrow>
        (h2, map snd merged2,
         stats\<lparr>trivy_only :=
           int (length (filter (\<lambda>v. found_by (h2 v) = Some [''trivy'']) (map snd merged2)))\<rparr>))"

text \<open>An example heap: two reports of one vulnerability of one package, the second with
  the longer description, at addresses 0 and 1, and a copy of the second at address 2.\<close>

definition trivy_report :: finding where
  "trivy_report =
     \<lparr>vuln_id = ''CVE-2024-1'', package = ''foo'', version = ''1.0'', severity = ''HIGH'',
      title = ''overflow in foo'', description = ''overflow'', fixed_version = [],
      cvss_score = JNum 7.5, cvss_v2_score = JNull, cvss_v3_score = JNum 7.5,
      cvss_vector = JStr ''CVSS:3.1/AV:N'', references = [''https://a.example/1''],
      target = ''app:1'', vuln_type = ''debian'', source = ''trivy'', found_by = None\<rparr>"

definition grype_report :: finding where
  "grype_report =
     \<lparr>vuln_id = ''CVE-2024-1'', package = ''Foo'', version = ''1.0'', severity = ''HIGH'',
      title = [], description = ''heap overflow in foo'', fixed_version = ''1.1'',
      cvss_score = JNull, cvss_v2_score = JNull, cvss_v3_score = JNull,
      cvss_vector = JNull, references = [''https://b.example/2''],
      target = ''deb'', vuln_type = ''deb'', source = ''grype'', found_by = None\<rparr>"

definition example_heap :: heap where
  "example_heap = (\<lambda>a. if a = 0 then trivy_report else grype_report)"


text \<open>Two states of a finding that agree on every key that \<open>merge_vulnerabilities\<close>
  never assigns: all keys but \<open>found_by\<close>, \<open>description\<close>, \<open>fixed_version\<close> and
  \<open>references\<close>.\<close>

definition same_fixed_fields :: "finding \<Rightarrow> finding \<Rightarrow> bool" where
  "same_fixed_fields f g \<longleftrightarrow>
     vuln_id g = vuln_id f \<and> package g = package f \<and> version g = version f \<and>
     severity g = severity f \<and> title g = title f \<and> cvss_score g = cvss_score f \<and>
     cvss_v2_score g = cvss_v2_score f \<and> cvss_v3_score g = cvss_v3_score f \<and>
     cvss_vector g = cvss_vector f \<and> target g = target f \<and> vuln_type g = vuln_type f \<and>
     source g = source f"


text \<open>
  The invariants of the two loops of \<open>merge_vulnerabilities\<close>, for the heap \<open>h0\<close>
  before the call, the first list \<open>ts\<close> and the part \<open>seen\<close> of the list that the
  loop has gone through: no key outside the four that are assigned has changed, objects
  the loops did not reach are as before, \<open>merged\<close> holds each key of a finding gone
  through once, under the address of a finding with that key, and the counters count
  the findings of the second list whose key was, or was not, in \<open>merged\<close>.
\<close>

definition trivy_inv :: "heap \<Rightarrow> addr list \<Rightarrow> heap \<times> (vuln_key \<times> addr) list \<Rightarrow> bool" where
  "trivy_inv h0 seen st \<longleftrightarrow>
     (case st of (h, merged) \<Rightarrow>
        (\<forall>a. same_fixed_fields (h0 a) (h a)) \<and>
        (\<forall>a. a \<notin> set seen \<longrightarrow> h a = h0 a) \<and>
        (\<forall>a \<in> set seen. found_by (h a) = Some [''trivy'']) \<and>
        (\<forall>(k, v) \<in> set merged. v \<in> set seen \<and> k = create_vuln_key (h0 v)) \<and>
        fst ` set merged = (\<lambda>a. create_vuln_key (h0 a)) ` set seen \<and>
        distinct (map fst merged))"

definition grype_inv ::
  "heap \<Rightarrow> addr list \<Rightarrow> addr list \<Rightarrow> heap \<times> (vuln_key \<times> addr) list \<times> merge_stats \<Rightarrow> bool" where
  "grype_inv h0 ts seen st \<longleftrightarrow>
     (case st of (h, merged, stats) \<Rightarrow>
        (\<forall>a. same_fixed_fields (h0 a) (h a)) \<and>
        (\<forall>a. a \<notin> set ts \<union> snd ` set merged \<longrightarrow> h a = h0 a) \<and>
        (\<forall>(k, v) \<in> set merged. v \<in> set ts \<union> set seen \<and> k = create_vuln_key (h0 v) \<and>
            found_by (h v) \<noteq> None) \<and>
        (\<forall>(k, v) \<in> set merged. k \<in> (\<lambda>a. create_vuln_key (h0 a)) ` set seen \<longrightarrow>
            (\<exists>l. found_by (h v) = Some l \<and> ''grype'' \<in> set l)) \<and>
        (\<forall>a \<in> set ts. found_by (h a) \<noteq> None) \<and>
        fst ` set merged = (\<lambda>a. create_vuln_key (h0 a)) ` (set ts \<union> set seen) \<and>
        distinct (map fst merged) \<and>
        both stats + grype_only stats = int (length seen) \<and>
        grype_only stats
          = int (length merged) - int (card ((\<lambda>a. create_vuln_key (h0 a)) ` set ts)))"


section \<open>Properties of scan.py\<close>

lemma severities_cases:
  "sev \<in> set severities \<Longrightarrow>
     sev = ''critical'' \<or> sev = ''high'' \<or> sev = ''medium'' \<or> sev = ''low'' \<or>
     sev = ''negligible'' \<or> sev = ''unknown''"
  by (simp add: severities_def)

lemma stats_block_severity:
  "stats_block s ''critical'' = Some (critical s)"
  "stats_block s ''high'' = Some (high s)"
  "stats_block s ''medium'' = Some (medium s)"
  "stats_block s ''low'' = Some (low s)"
  "stats_block s ''negligible'' = Some (negligible s)"
  "stats_block s ''unknown'' = Some (unknown s)"
  by (simp_all add: stats_block_def)

lemma total_block_severity:
  "total_block a b ''critical'' = Some (critical a + critical b)"
  "total_block a b ''high'' = Some (high a + high b)"
  "total_block a b ''medium'' = Some (medium a + medium b)"
  "total_block a b ''low'' = Some (low a + low b)"
  "total_block a b ''negligible'' = Some (negligible a + negligible b)"
  "total_block a b ''unknown'' = Some (unknown a + unknown b)"
  by (simp_all add: total_block_def)

lemma image_data_total:
  assumes "sev \<in> set severities"
  shows "\<exists>x y. e_os_level (image_data r) sev = Some x \<and> e_app_level (image_data r) sev = Some y
     \<and> e_total (image_data r) sev = Some (x + y)"
  using severities_cases[OF assms]
  by (auto simp: image_data_def stats_block_severity total_block_severity)

lemma sum_list_map_add:
  "sum_list (map (\<lambda>r. f r + g r) xs) = sum_list (map f xs) + (sum_list (map g xs) :: int)"
  by (induction xs) auto

lemma summary_blocks_total:
  assumes "sev \<in> set severities"
  shows "\<exists>x y. summary_block os_level rs sev = Some x \<and> summary_block app_level rs sev = Some y
     \<and> summary_total_block rs sev = Some (x + y)"
  using severities_cases[OF assms]
  by (auto simp: summary_block_def summary_total_block_def sum_list_map_add)

lemma summary_of_saved:
  "summary (save_results_to_json rs now) ''os_level'' = Some (summary_block os_level rs)"
  "summary (save_results_to_json rs now) ''app_level'' = Some (summary_block app_level rs)"
  "summary (save_results_to_json rs now) ''total'' = Some (summary_total_block rs)"
  by (simp_all add: save_results_to_json_def)

text \<open>
  Claim C2. In the snapshot that \<open>save_results_to_json\<close> writes, every image entry
  holds, under each of the six severities, a count in its \<open>os_level\<close> block, a count
  in its \<open>app_level\<close> block, and in its \<open>total\<close> block the sum of the two; the
  three blocks of \<open>summary\<close> satisfy the same equation. The input records
  (\<open>ImageVulnerabilities\<close>) have no total of their own: the total block is computed
  from the two statistics records at the time of writing.
\<close>

theorem save_results_total_invariant:
  "(\<forall>e \<in> set (images (save_results_to_json results now)). \<forall>sev \<in> set severities.
      \<exists>x y. e_os_level e sev = Some x \<and> e_app_level e sev = Some y \<and>
            e_total e sev = Some (x + y))
   \<and> (\<forall>sev \<in> set severities.
      \<exists>x y. block (summary (save_results_to_json results now)) ''os_level'' sev = Some x \<and>
            block (summary (save_results_to_json results now)) ''app_level'' sev = Some y \<and>
            block (summary (save_results_to_json results now)) ''total'' sev = Some (x + y))"
proof (intro conjI ballI)
  fix e sev
  assume e: "e \<in> set (images (save_results_to_json results now))"
    and sev: "sev \<in> set severities"
  from e obtain r where "e = image_data r"
    by (auto simp: save_results_to_json_def)
  with image_data_total[OF sev] show
    "\<exists>x y. e_os_level e sev = Some x \<and> e_app_level e sev = Some y \<and> e_total e sev = Some (x + y)"
    by simp
next
  fix sev
  assume sev: "sev \<in> set severities"
  from summary_blocks_total[OF sev, of results] show
    "\<exists>x y. block (summary (save_results_to_json results now)) ''os_level'' sev = Some x \<and>
           block (summary (save_results_to_json results now)) ''app_level'' sev = Some y \<and>
           block (summary (save_results_to_json results now)) ''total'' sev = Some (x + y)"
    by (simp add: block_def summary_of_saved)
qed

theorem save_results_total_invariant_witness:
  "image_data \<lparr>image_name = ''app:1'',
       os_level = \<lparr>critical = 1, high = 2, medium = 0, low = 0, negligible = 0, unknown = 0\<rparr>,
       app_level = \<lparr>critical = 0, high = 3, medium = 0, low = 0, negligible = 0, unknown = 1\<rparr>\<rparr>
     \<in> set (images (save_results_to_json
        [\<lparr>image_name = ''app:1'',
          os_level = \<lparr>critical = 1, high = 2, medium = 0, low = 0, negligible = 0, unknown = 0\<rparr>,
          app_level = \<lparr>critical = 0, high = 3, medium = 0, low = 0, negligible = 0, unknown = 1\<rparr>\<rparr>]
        ''2024-05-01T10:00:00''))
   \<and> ''high'' \<in> set severities
   \<and> e_total (image_data \<lparr>image_name = ''app:1'',
       os_level = \<lparr>critical = 1, high = 2, medium = 0, low = 0, negligible = 0, unknown = 0\<rparr>,
       app_level = \<lparr>critical = 0, high = 3, medium = 0, low = 0, negligible = 0, unknown = 1\<rparr>\<rparr>)
       ''high'' = Some 5
   \<and> block (summary (save_results_to_json
        [\<lparr>image_name = ''app:1'',
          os_level = \<lparr>critical = 1, high = 2, medium = 0, low = 0, negligible = 0, unknown = 0\<rparr>,
          app_level = \<lparr>critical = 0, high = 3, medium = 0, low = 0, negligible = 0, unknown = 1\<rparr>\<rparr>]
        ''2024-05-01T10:00:00'')) ''total'' ''high'' = Some 5"
  (is "?e \<in> set (images ?snap) \<and> _ \<and> _ \<and> _")
proof -
  have mem: "?e \<in> set (images ?snap)"
    by (simp add: save_results_to_json_def)
  have sev: "''high'' \<in> set severities"
    by (simp add: severities_def)
  note inv = save_results_total_invariant[of "[\<lparr>image_name = ''app:1'',
          os_level = \<lparr>critical = 1, high = 2, medium = 0, low = 0, negligible = 0, unknown = 0\<rparr>,
          app_level = \<lparr>critical = 0, high = 3, medium = 0, low = 0, negligible = 0, unknown = 1\<rparr>\<rparr>]"
          "''2024-05-01T10:00:00''"]
  from inv mem sev obtain x y where
    "e_os_level ?e ''high'' = Some x" "e_app_level ?e ''high'' = Some y"
    "e_total ?e ''high'' = Some (x + y)"
    by blast
  then have t: "e_total ?e ''high'' = Some 5"
    by (simp add: image_data_def stats_block_severity)
  from inv sev obtain u v where
    "block (summary ?snap) ''os_level'' ''high'' = Some u"
    "block (summary ?snap) ''app_level'' ''high'' = Some v"
    "block (summary ?snap) ''total'' ''high'' = Some (u + v)"
    by blast
  then have s: "block (summary ?snap) ''total'' ''high'' = Some 5"
    by (simp add: block_def summary_of_saved summary_block_def)
  from mem sev t s show ?thesis by blast
qed













section \<open>Properties of compare.py: the drift\<close>

lemma index_images_total:
  "(\<forall>e \<in> set imgs. e_image e \<noteq> None) \<Longrightarrow> \<exists>d'. index_images imgs d = Inr d'"
  by (induction imgs arbitrary: d) auto

lemma index_images_keys:
  "index_images imgs d = Inr d' \<Longrightarrow>
     set (map fst d') = set (map fst d) \<union> set (List.map_filter e_image imgs)"
proof (induction imgs arbitrary: d)
  case Nil
  then show ?case by (simp add: List.map_filter_simps)
next
  case (Cons img imgs)
  then show ?case
    by (auto simp: List.map_filter_simps dom_update split: option.splits)
qed

lemma all_images_set: "set (all_images p c) = set (map fst p) \<union> set (map fst c)"
  by (simp add: all_images_def)

lemma all_images_distinct: "distinct (all_images p c)"
  by (simp add: all_images_def)

lemma all_images_sorted: "sorted (all_images p c)"
  by (simp add: all_images_def)

lemma d_image_image_diff_of: "d_image (image_diff_of p c k) = k"
  by (simp add: image_diff_of_def split: option.splits)

lemma d_status_image_diff_of:
  "d_status (image_diff_of p c k) =
     (if k \<in> set (map fst p) \<and> k \<in> set (map fst c) then ''compared''
      else if k \<in> set (map fst p) then ''removed''
      else if k \<in> set (map fst c) then ''new'' else ''unknown'')"
proof -
  have "k \<in> set (map fst p) \<longleftrightarrow> map_of p k \<noteq> None" "k \<in> set (map fst c) \<longleftrightarrow> map_of c k \<noteq> None"
    by (simp_all add: map_of_eq_None_iff)
  then show ?thesis
    by (auto simp: image_diff_of_def split: option.splits)
qed

lemma calculate_diff_Inr:
  assumes "calculate_diff previous current = Inr d"
  obtains p c where "index_images (images previous) [] = Inr p"
    "index_images (images current) [] = Inr c"
    "d_images d = map (image_diff_of p c) (all_images p c)"
    "d_summary d = map_of (map (\<lambda>category.
                   (category, level_change (block (summary current) category)
                                           (block (summary previous) category))) categories)"
  using assms by (auto simp: calculate_diff_def split: sum.splits)

text \<open>
  Claim C6. When every entry of both snapshots has an identifier, \<open>calculate_diff\<close>
  returns a drift whose \<open>images\<close> list holds every identifier of either snapshot
  exactly once (the identifiers of the list are distinct, and as a set they are the union
  of the identifiers of the two snapshots), and the single status of an entry is
  \<open>compared\<close> when its identifier is in both snapshots, \<open>removed\<close> when it is only
  in the previous one and \<open>new\<close> when it is only in the current one.
\<close>

theorem calculate_diff_status_classification:
  assumes "\<forall>e \<in> set (images previous) \<union> set (images current). e_image e \<noteq> None"
  shows "\<exists>d. calculate_diff previous current = Inr d
    \<and> distinct (map d_image (d_images d))
    \<and> set (map d_image (d_images d)) = image_ids previous \<union> image_ids current
    \<and> (\<forall>x \<in> set (d_images d).
          d_status x =
            (if d_image x \<in> image_ids previous \<and> d_image x \<in> image_ids current then ''compared''
             else if d_image x \<in> image_ids previous then ''removed''
             else ''new''))"
proof -
  from assms obtain p where p: "index_images (images previous) [] = Inr p"
    using index_images_total[of "images previous" "[]"] by auto
  from assms obtain c where c: "index_images (images current) [] = Inr c"
    using index_images_total[of "images current" "[]"] by auto
  have kp: "set (map fst p) = image_ids previous"
    using index_images_keys[OF p] by (simp add: image_ids_def)
  have kc: "set (map fst c) = image_ids current"
    using index_images_keys[OF c] by (simp add: image_ids_def)
  define d where "d = \<lparr>previous_timestamp = timestamp previous,
               current_timestamp = timestamp current,
               d_images = map (image_diff_of p c) (all_images p c),
               d_summary = map_of (map (\<lambda>category.
                   (category, level_change (block (summary current) category)
                                           (block (summary previous) category))) categories)\<rparr>"
  have 1: "calculate_diff previous current = Inr d"
    by (simp add: calculate_diff_def p c d_def)
  have names: "map d_image (d_images d) = all_images p c"
    by (simp add: d_def comp_def d_image_image_diff_of)
  have 2: "distinct (map d_image (d_images d))"
    by (simp only: names all_images_distinct)
  have 3: "set (map d_image (d_images d)) = image_ids previous \<union> image_ids current"
    by (simp only: names all_images_set kp kc)
  have 4: "\<forall>x \<in> set (d_images d).
          d_status x =
            (if d_image x \<in> image_ids previous \<and> d_image x \<in> image_ids current then ''compared''
             else if d_image x \<in> image_ids previous then ''removed''
             else ''new'')"
  proof
    fix x assume "x \<in> set (d_images d)"
    then obtain k where k: "k \<in> set (all_images p c)" "x = image_diff_of p c k"
      by (auto simp: d_def)
    from k(1)[unfolded all_images_set kp kc]
    have "k \<in> image_ids previous \<or> k \<in> image_ids current"
      by simp
    then show "d_status x =
            (if d_image x \<in> image_ids previous \<and> d_image x \<in> image_ids current then ''compared''
             else if d_image x \<in> image_ids previous then ''removed''
             else ''new'')"
      unfolding k(2) d_image_image_diff_of d_status_image_diff_of kp kc by auto
  qed
  from 1 2 3 4 show ?thesis by blast
qed

lemma index_images_all_some:
  "index_images imgs d = Inr d' \<Longrightarrow> \<forall>e \<in> set imgs. e_image e \<noteq> None"
  by (induction imgs arbitrary: d) (auto split: option.splits)

lemma map_filter_all_some:
  "\<forall>e \<in> set imgs. e_image e \<noteq> None \<Longrightarrow> List.map_filter e_image imgs = map (the \<circ> e_image) imgs"
  by (induction imgs) (auto simp: List.map_filter_simps)

lemma index_images_other:
  "index_images imgs d = Inr d' \<Longrightarrow> k \<notin> set (List.map_filter e_image imgs) \<Longrightarrow>
     map_of d' k = map_of d k"
proof (induction imgs arbitrary: d)
  case Nil
  then show ?case by simp
next
  case (Cons img imgs)
  then show ?case
    by (auto simp: List.map_filter_simps update_conv' split: option.splits)
qed

lemma index_images_lookup:
  "index_images imgs d = Inr d' \<Longrightarrow> distinct (List.map_filter e_image imgs) \<Longrightarrow>
     e \<in> set imgs \<Longrightarrow> e_image e = Some k \<Longrightarrow> map_of d' k = Some e"
proof (induction imgs arbitrary: d)
  case Nil
  then show ?case by simp
next
  case (Cons img imgs)
  from Cons.prems(1) obtain k0 where k0: "e_image img = Some k0"
    and rest: "index_images imgs (AList.update k0 img d) = Inr d'"
    by (auto split: option.splits)
  from Cons.prems(2) k0 have dist: "distinct (List.map_filter e_image imgs)"
    and fresh: "k0 \<notin> set (List.map_filter e_image imgs)"
    by (simp_all add: List.map_filter_simps)
  show ?case
  proof (cases "e \<in> set imgs")
    case True
    from Cons.IH[OF rest dist True Cons.prems(4)] show ?thesis .
  next
    case False
    with Cons.prems(3) have "e = img" by simp
    with k0 Cons.prems(4) have "k = k0" by simp
    from index_images_other[OF rest fresh] have "map_of d' k0 = Some img"
      by (simp add: update_conv')
    with \<open>e = img\<close> \<open>k = k0\<close> show ?thesis by simp
  qed
qed

lemma get0_level_change:
  "sev \<in> set severities \<Longrightarrow> get0 (level_change a b) sev = get0 a sev - get0 b sev"
  by (auto simp: level_change_def severities_def get0_def)

lemma get0_empty: "get0 Map.empty sev = 0"
  by (simp add: get0_def)

lemma d_summary_category:
  assumes "calculate_diff previous current = Inr d" "cat \<in> set categories"
  shows "block (d_summary d) cat =
           level_change (block (summary current) cat) (block (summary previous) cat)"
proof -
  from assms(1) have "d_summary d = map_of (map (\<lambda>category.
                   (category, level_change (block (summary current) category)
                                           (block (summary previous) category))) categories)"
    by (rule calculate_diff_Inr)
  with assms(2) show ?thesis
    by (auto simp: block_def categories_def)
qed

lemma diff_level_compared:
  assumes "map_of p k = Some pe" "map_of c k = Some ce" "sev \<in> set severities"
  shows "get0 (diff_level cat (image_diff_of p c k)) sev =
           get0 (entry_level cat ce) sev - get0 (entry_level cat pe) sev"
  using assms by (simp add: diff_level_def image_diff_of_def entry_level_def get0_level_change)

lemma diff_level_not_compared:
  assumes "map_of p k = None \<or> map_of c k = None"
  shows "get0 (diff_level cat (image_diff_of p c k)) sev = 0"
  using assms by (auto simp: diff_level_def image_diff_of_def get0_empty split: option.splits)

text \<open>The sum of a per-entry quantity over the entries of a snapshot with distinct
  identifiers is the sum over the identifiers of the index.\<close>

lemma sum_over_index:
  assumes idx: "index_images imgs [] = Inr c"
    and dist: "distinct (List.map_filter e_image imgs)"
  shows "(\<Sum>e\<leftarrow>imgs. g e) = (\<Sum>k\<in>set (map fst c). (g (the (map_of c k)) :: int))"
proof -
  have some: "\<forall>e \<in> set imgs. e_image e \<noteq> None"
    using index_images_all_some[OF idx] .
  have ids: "List.map_filter e_image imgs = map (the \<circ> e_image) imgs"
    using map_filter_all_some[OF some] .
  have keys: "set (map fst c) = set (map (the \<circ> e_image) imgs)"
    using index_images_keys[OF idx] ids by simp
  have "(\<Sum>e\<leftarrow>imgs. g e) = (\<Sum>e\<leftarrow>imgs. g (the (map_of c ((the \<circ> e_image) e))))"
  proof (rule arg_cong[where f = sum_list], rule map_cong[OF refl])
    fix e assume e: "e \<in> set imgs"
    with some obtain k where k: "e_image e = Some k" by auto
    from index_images_lookup[OF idx dist e k] k
    show "g e = g (the (map_of c ((the \<circ> e_image) e)))" by simp
  qed
  also have "\<dots> = (\<Sum>k\<leftarrow>map (the \<circ> e_image) imgs. g (the (map_of c k)))"
    by (simp add: comp_def)
  also have "\<dots> = (\<Sum>k\<in>set (map (the \<circ> e_image) imgs). g (the (map_of c k)))"
    using dist unfolding ids by (rule sum_list_distinct_conv_sum_set)
  finally show ?thesis unfolding keys .
qed

text \<open>
  Claim C1, as amended. \<open>calculate_diff\<close> takes the summary delta from the two
  \<open>summary\<close> blocks, and gives an image found in one snapshot only empty change
  blocks. So the summary delta of a level and severity is the sum of the per-image
  deltas for pairs of snapshots in which (as in every file \<open>save_results_to_json\<close>
  writes for distinct images) each summary count is the sum of the counts of the image
  entries and no identifier occurs twice, and which hold the same identifiers, so that
  no image is new or removed.
\<close>

theorem calculate_diff_summary_sum:
  assumes d: "calculate_diff previous current = Inr d"
    and dp: "distinct (List.map_filter e_image (images previous))"
    and dc: "distinct (List.map_filter e_image (images current))"
    and same: "image_ids previous = image_ids current"
    and sp: "\<forall>cat \<in> set categories. \<forall>sev \<in> set severities.
        get0 (block (summary previous) cat) sev
          = (\<Sum>e\<leftarrow>images previous. get0 (entry_level cat e) sev)"
    and sc: "\<forall>cat \<in> set categories. \<forall>sev \<in> set severities.
        get0 (block (summary current) cat) sev
          = (\<Sum>e\<leftarrow>images current. get0 (entry_level cat e) sev)"
    and cat: "cat \<in> set categories" and sev: "sev \<in> set severities"
  shows "get0 (block (d_summary d) cat) sev = (\<Sum>x\<leftarrow>d_images d. get0 (diff_level cat x) sev)"
proof -
  from d obtain p c where p: "index_images (images previous) [] = Inr p"
    and c: "index_images (images current) [] = Inr c"
    and imgs: "d_images d = map (image_diff_of p c) (all_images p c)"
    by (rule calculate_diff_Inr)
  have kp: "set (map fst p) = image_ids previous"
    using index_images_keys[OF p] by (simp add: image_ids_def)
  have kc: "set (map fst c) = image_ids current"
    using index_images_keys[OF c] by (simp add: image_ids_def)
  have all: "set (all_images p c) = set (map fst c)" "set (all_images p c) = set (map fst p)"
    unfolding all_images_set kp kc same by simp_all
  let ?gc = "\<lambda>k. get0 (entry_level cat (the (map_of c k))) sev"
  let ?gp = "\<lambda>k. get0 (entry_level cat (the (map_of p k))) sev"
  have "(\<Sum>x\<leftarrow>d_images d. get0 (diff_level cat x) sev)
          = (\<Sum>k\<leftarrow>all_images p c. get0 (diff_level cat (image_diff_of p c k)) sev)"
    by (simp add: imgs comp_def)
  also have "\<dots> = (\<Sum>k\<leftarrow>all_images p c. ?gc k - ?gp k)"
  proof (rule arg_cong[where f = sum_list], rule map_cong[OF refl])
    fix k assume k: "k \<in> set (all_images p c)"
    from k all(2) obtain pe where pe: "map_of p k = Some pe"
      by (metis map_of_eq_None_iff not_None_eq set_map)
    from k all(1) obtain ce where ce: "map_of c k = Some ce"
      by (metis map_of_eq_None_iff not_None_eq set_map)
    show "get0 (diff_level cat (image_diff_of p c k)) sev = ?gc k - ?gp k"
      using diff_level_compared[OF pe ce sev] pe ce by simp
  qed
  also have "\<dots> = (\<Sum>k\<in>set (all_images p c). ?gc k - ?gp k)"
    by (rule sum_list_distinct_conv_sum_set[OF all_images_distinct])
  also have "\<dots> = (\<Sum>k\<in>set (all_images p c). ?gc k) - (\<Sum>k\<in>set (all_images p c). ?gp k)"
    by (rule sum_subtractf)
  also have "(\<Sum>k\<in>set (all_images p c). ?gc k) = (\<Sum>e\<leftarrow>images current. get0 (entry_level cat e) sev)"
    unfolding all(1) by (rule sum_over_index[OF c dc, symmetric])
  also have "(\<Sum>k\<in>set (all_images p c). ?gp k) = (\<Sum>e\<leftarrow>images previous. get0 (entry_level cat e) sev)"
    unfolding all(2) by (rule sum_over_index[OF p dp, symmetric])
  finally have rhs: "(\<Sum>x\<leftarrow>d_images d. get0 (diff_level cat x) sev)
      = (\<Sum>e\<leftarrow>images current. get0 (entry_level cat e) sev)
        - (\<Sum>e\<leftarrow>images previous. get0 (entry_level cat e) sev)" .
  have "get0 (block (d_summary d) cat) sev
      = get0 (block (summary current) cat) sev - get0 (block (summary previous) cat) sev"
    unfolding d_summary_category[OF d cat] by (rule get0_level_change[OF sev])
  with sp sc cat sev rhs show ?thesis by simp
qed

lemma images_saved: "images (save_results_to_json rs now) = map image_data rs"
  by (simp add: save_results_to_json_def)

lemma e_image_image_data: "e_image (image_data r) = Some (image_name r)"
  by (simp add: image_data_def)

lemma entry_level_image_data:
  "entry_level ''os_level'' (image_data r) = stats_block (os_level r)"
  "entry_level ''app_level'' (image_data r) = stats_block (app_level r)"
  "entry_level ''total'' (image_data r) = total_block (os_level r) (app_level r)"
  by (simp_all add: entry_level_def image_data_def)

lemma categories_cases:
  "cat \<in> set categories \<Longrightarrow> cat = ''os_level'' \<or> cat = ''app_level'' \<or> cat = ''total''"
  by (simp add: categories_def)

lemma sum_list_get0_stats:
  "sev \<in> set severities \<Longrightarrow>
     get0 (summary_block level rs) sev = (\<Sum>r\<leftarrow>rs. get0 (stats_block (level r)) sev)"
  by (drule severities_cases) (auto simp: get0_def summary_block_def stats_block_severity)

lemma sum_list_get0_total:
  "sev \<in> set severities \<Longrightarrow>
     get0 (summary_total_block rs) sev
       = (\<Sum>r\<leftarrow>rs. get0 (total_block (os_level r) (app_level r)) sev)"
  by (drule severities_cases) (auto simp: get0_def summary_total_block_def total_block_severity)

lemma saved_summary_consistent:
  assumes "cat \<in> set categories" "sev \<in> set severities"
  shows "get0 (block (summary (save_results_to_json rs now)) cat) sev
           = (\<Sum>e\<leftarrow>images (save_results_to_json rs now). get0 (entry_level cat e) sev)"
  using categories_cases[OF assms(1)]
  by (auto simp: block_def summary_of_saved images_saved comp_def entry_level_image_data
        sum_list_get0_stats[OF assms(2)] sum_list_get0_total[OF assms(2)])

lemma index_before:
  "index_images (images snapshot_before) [] =
     Inr [(''app:1'', image_data app1_before), (''old:1'', image_data old1_scan)]"
  by (simp add: snapshot_before_def images_saved e_image_image_data app1_before_def old1_scan_def)

lemma index_after:
  "index_images (images snapshot_after) [] =
     Inr [(''app:1'', image_data app1_after), (''db:2'', image_data db2_scan)]"
  by (simp add: snapshot_after_def images_saved e_image_image_data app1_after_def db2_scan_def)

lemma all_images_example:
  "all_images [(''app:1'', a), (''old:1'', b)] [(''app:1'', c), (''db:2'', d)]
     = [''app:1'', ''db:2'', ''old:1'']"
  by (simp add: all_images_def)

lemma d_images_example:
  "calculate_diff snapshot_before snapshot_after = Inr d \<Longrightarrow>
   d_images d = map (image_diff_of [(''app:1'', image_data app1_before), (''old:1'', image_data old1_scan)]
       [(''app:1'', image_data app1_after), (''db:2'', image_data db2_scan)]) [''app:1'', ''db:2'', ''old:1'']"
  by (erule calculate_diff_Inr) (auto simp: index_before index_after all_images_example)

text \<open>
  The claim C1 as stated fails on two snapshots written by \<open>save_results_to_json\<close>:
  image \<open>db:2\<close> is new and \<open>old:1\<close> is removed, both contribute nothing to the
  per-image deltas, and the summary delta of critical findings is \<open>-2\<close> while the
  per-image deltas add up to \<open>-3\<close>.
\<close>

theorem calculate_diff_summary_sum_counterexample:
  "\<exists>d. calculate_diff snapshot_before snapshot_after = Inr d
     \<and> get0 (block (d_summary d) ''total'') ''critical'' = - 2
     \<and> (\<Sum>x\<leftarrow>d_images d. get0 (diff_level ''total'' x) ''critical'') = - 3"
proof -
  obtain d where d: "calculate_diff snapshot_before snapshot_after = Inr d"
    by (auto simp: calculate_diff_def index_before index_after)
  have cat: "''total'' \<in> set categories" by (simp add: categories_def)
  have sev: "''critical'' \<in> set severities" by (simp add: severities_def)
  have "get0 (block (d_summary d) ''total'') ''critical'' = - 2"
    unfolding d_summary_category[OF d cat] get0_level_change[OF sev]
    by (simp add: snapshot_before_def snapshot_after_def block_def summary_of_saved
          get0_def summary_total_block_def app1_before_def app1_after_def old1_scan_def db2_scan_def)
  moreover have "(\<Sum>x\<leftarrow>d_images d. get0 (diff_level ''total'' x) ''critical'') = - 3"
    unfolding d_images_example[OF d]
    by (simp add: image_diff_of_def diff_level_def get0_level_change[OF sev] get0_empty)
       (simp add: image_data_def get0_def total_block_severity app1_before_def app1_after_def)
  ultimately show ?thesis using d by blast
qed

lemma image_ids_saved: "image_ids (save_results_to_json rs now) = set (map image_name rs)"
  by (induction rs) (simp_all add: image_ids_def images_saved List.map_filter_simps e_image_image_data)

lemma id_list_saved:
  "List.map_filter e_image (images (save_results_to_json rs now)) = map image_name rs"
  by (induction rs) (simp_all add: images_saved List.map_filter_simps e_image_image_data)

theorem calculate_diff_status_classification_witness:
  "\<exists>d. calculate_diff snapshot_before snapshot_after = Inr d
     \<and> distinct (map d_image (d_images d))
     \<and> set (map d_image (d_images d)) = {''app:1'', ''old:1'', ''db:2''}
     \<and> map d_image (d_images d) = [''app:1'', ''db:2'', ''old:1'']
     \<and> map d_status (d_images d) = [''compared'', ''new'', ''removed'']"
proof -
  have h: "\<forall>e \<in> set (images snapshot_before) \<union> set (images snapshot_after). e_image e \<noteq> None"
    by (auto simp: snapshot_before_def snapshot_after_def images_saved e_image_image_data)
  have ids: "image_ids snapshot_before = {''app:1'', ''old:1''}"
    "image_ids snapshot_after = {''app:1'', ''db:2''}"
    by (simp_all add: snapshot_before_def snapshot_after_def image_ids_saved
          app1_before_def app1_after_def old1_scan_def db2_scan_def)
  from calculate_diff_status_classification[OF h] obtain d where
    d: "calculate_diff snapshot_before snapshot_after = Inr d"
    and dist: "distinct (map d_image (d_images d))"
    and keys: "set (map d_image (d_images d)) = image_ids snapshot_before \<union> image_ids snapshot_after"
    by blast
  from keys have keys': "set (map d_image (d_images d)) = {''app:1'', ''old:1'', ''db:2''}"
    unfolding ids by auto
  have names: "map d_image (d_images d) = [''app:1'', ''db:2'', ''old:1'']"
    unfolding d_images_example[OF d] by (simp add: d_image_image_diff_of)
  have stat: "map d_status (d_images d) = [''compared'', ''new'', ''removed'']"
    unfolding d_images_example[OF d] by (simp add: d_status_image_diff_of)
  show ?thesis
    by (rule exI[of _ d]) (intro conjI d dist keys' names stat)
qed

theorem calculate_diff_summary_sum_witness:
  "\<exists>d. calculate_diff app1_snapshot_before app1_snapshot_after = Inr d
     \<and> get0 (block (d_summary d) ''total'') ''critical''
         = (\<Sum>x\<leftarrow>d_images d. get0 (diff_level ''total'' x) ''critical'')
     \<and> get0 (block (d_summary d) ''total'') ''critical'' = - 3"
proof -
  obtain d where d: "calculate_diff app1_snapshot_before app1_snapshot_after = Inr d"
    by (auto simp: calculate_diff_def app1_snapshot_before_def app1_snapshot_after_def
          images_saved e_image_image_data)
  have dp: "distinct (List.map_filter e_image (images app1_snapshot_before))"
    by (simp add: app1_snapshot_before_def id_list_saved)
  have dc: "distinct (List.map_filter e_image (images app1_snapshot_after))"
    by (simp add: app1_snapshot_after_def id_list_saved)
  have same: "image_ids app1_snapshot_before = image_ids app1_snapshot_after"
    by (simp add: app1_snapshot_before_def app1_snapshot_after_def image_ids_saved
          app1_before_def app1_after_def)
  have sp: "\<forall>cat \<in> set categories. \<forall>sev \<in> set severities.
        get0 (block (summary app1_snapshot_before) cat) sev
          = (\<Sum>e\<leftarrow>images app1_snapshot_before. get0 (entry_level cat e) sev)"
    unfolding app1_snapshot_before_def using saved_summary_consistent by blast
  have sc: "\<forall>cat \<in> set categories. \<forall>sev \<in> set severities.
        get0 (block (summary app1_snapshot_after) cat) sev
          = (\<Sum>e\<leftarrow>images app1_snapshot_after. get0 (entry_level cat e) sev)"
    unfolding app1_snapshot_after_def using saved_summary_consistent by blast
  have cat: "''total'' \<in> set categories" by (simp add: categories_def)
  have sev: "''critical'' \<in> set severities" by (simp add: severities_def)
  have eq: "get0 (block (d_summary d) ''total'') ''critical''
         = (\<Sum>x\<leftarrow>d_images d. get0 (diff_level ''total'' x) ''critical'')"
    by (rule calculate_diff_summary_sum[OF d dp dc same sp sc cat sev])
  have val: "get0 (block (d_summary d) ''total'') ''critical'' = - 3"
    unfolding d_summary_category[OF d cat] get0_level_change[OF sev]
    by (simp add: app1_snapshot_before_def app1_snapshot_after_def block_def summary_of_saved
          get0_def summary_total_block_def app1_before_def app1_after_def)
  show ?thesis
    by (rule exI[of _ d]) (intro conjI d eq val)
qed

section \<open>Properties of merge-scan-results.py: severities\<close>

lemma upper_lower_char: "upper_char (lower_char c) = upper_char c"
  by (simp add: upper_char_def lower_char_def less_eq_char_def)

lemma lower_upper_char: "lower_char (upper_char c) = lower_char c"
  by (auto simp: upper_char_def lower_char_def less_eq_char_def)

lemma upper_lower: "upper (lower s) = upper s"
  by (simp add: upper_def lower_def upper_lower_char)

lemma lower_upper: "lower (upper s) = lower s"
  by (simp add: upper_def lower_def lower_upper_char)

lemma upper_names: "map upper severities = severity_names"
  unfolding severities_def severity_names_def by code_simp

lemma lower_names: "map lower severity_names = severities"
  unfolding severities_def severity_names_def by code_simp

lemma upper_in_names_iff: "upper s \<in> set severity_names \<longleftrightarrow> lower s \<in> set severities"
proof
  assume "upper s \<in> set severity_names"
  then have "lower (upper s) \<in> set (map lower severity_names)" by simp
  then show "lower s \<in> set severities" by (simp only: lower_upper lower_names)
next
  assume "lower s \<in> set severities"
  then have "upper (lower s) \<in> set (map upper severities)" by simp
  then show "upper s \<in> set severity_names" by (simp only: upper_lower upper_names)
qed

lemma normalize_severity_ascii:
  "is_ascii s \<Longrightarrow> normalize_severity u s = (if s \<noteq> [] then upper s else ''UNKNOWN'')"
  by (simp add: normalize_severity_def str_upper_def)

text \<open>
  Claim C3, as amended. \<open>normalize_severity\<close> returns \<open>UNKNOWN\<close> for the empty
  string and \<open>str.upper\<close> of the input for every other string. On a string of ASCII
  characters that is the string with its letters in upper case: such an input is mapped
  to one of the six values exactly when it is empty or spells one of them in some letter
  case, and any other such input is returned upper-cased, not coerced to \<open>UNKNOWN\<close>.
  For an input with a character outside ASCII the result is whatever \<open>str.upper\<close>
  makes of it.
\<close>

theorem normalize_severity_upper_cases:
  "normalize_severity unicode_upper [] = ''UNKNOWN''
   \<and> (s \<noteq> [] \<longrightarrow> normalize_severity unicode_upper s = str_upper unicode_upper s)
   \<and> (is_ascii s \<longrightarrow> s \<noteq> [] \<longrightarrow> normalize_severity unicode_upper s = upper s)
   \<and> (is_ascii s \<longrightarrow> lower s \<in> set severities \<longrightarrow>
         normalize_severity unicode_upper s \<in> set severity_names)
   \<and> (is_ascii s \<longrightarrow>
        (normalize_severity unicode_upper s \<in> set severity_names
           \<longleftrightarrow> s = [] \<or> lower s \<in> set severities))
   \<and> (\<not> is_ascii s \<longrightarrow> normalize_severity unicode_upper s = unicode_upper s)"
proof -
  have unk: "''UNKNOWN'' \<in> set severity_names"
    by (simp add: severity_names_def)
  have iff: "normalize_severity unicode_upper s \<in> set severity_names
         \<longleftrightarrow> s = [] \<or> lower s \<in> set severities" if "is_ascii s"
    using unk by (auto simp: normalize_severity_ascii[OF that] upper_in_names_iff)
  have 1: "normalize_severity unicode_upper [] = ''UNKNOWN''"
    by (simp add: normalize_severity_def)
  have 2: "s \<noteq> [] \<longrightarrow> normalize_severity unicode_upper s = str_upper unicode_upper s"
    by (simp add: normalize_severity_def)
  have 3: "is_ascii s \<longrightarrow> s \<noteq> [] \<longrightarrow> normalize_severity unicode_upper s = upper s"
    by (simp add: normalize_severity_ascii)
  have 4: "is_ascii s \<longrightarrow> lower s \<in> set severities \<longrightarrow>
         normalize_severity unicode_upper s \<in> set severity_names"
    using iff by blast
  have 5: "is_ascii s \<longrightarrow>
        (normalize_severity unicode_upper s \<in> set severity_names
           \<longleftrightarrow> s = [] \<or> lower s \<in> set severities)"
    using iff by blast
  have 6: "\<not> is_ascii s \<longrightarrow> normalize_severity unicode_upper s = unicode_upper s"
    by (auto simp: normalize_severity_def str_upper_def is_ascii_def)
  show ?thesis
    by (intro conjI 1 2 3 4 5 6)
qed

lemma ascii_examples: "is_ascii ''High''" "is_ascii ''bogus''"
  by (simp_all add: is_ascii_def)

lemma upper_examples: "upper ''High'' = ''HIGH''" "upper ''bogus'' = ''BOGUS''"
  "lower ''High'' = ''high''"
  by code_simp+

text \<open>
  The claim C3 as stated fails on an unrecognised severity: \<open>bogus\<close> is mapped to
  \<open>BOGUS\<close>, which is none of the six values.
\<close>

theorem normalize_severity_counterexample:
  "\<forall>unicode_upper. normalize_severity unicode_upper ''bogus'' = ''BOGUS''
     \<and> normalize_severity unicode_upper ''bogus'' \<notin> set severity_names"
  by (simp add: normalize_severity_ascii ascii_examples upper_examples severity_names_def)

theorem normalize_severity_upper_cases_witness:
  "is_ascii ''High'' \<and> lower ''High'' \<in> set severities
   \<and> normalize_severity (\<lambda>s. s) ''High'' = ''HIGH''
   \<and> normalize_severity (\<lambda>s. s) ''High'' \<in> set severity_names"
proof -
  have a: "is_ascii ''High''" by (rule ascii_examples)
  have h: "lower ''High'' \<in> set severities"
    by (simp add: upper_examples severities_def)
  have n: "''High'' \<noteq> []" by simp
  note inst = normalize_severity_upper_cases[where s = "''High''" and unicode_upper = "\<lambda>s. s"]
  have 1: "normalize_severity (\<lambda>s. s) ''High'' = upper ''High''"
    by (rule inst[THEN conjunct2, THEN conjunct2, THEN conjunct1, THEN mp, THEN mp, OF a n])
  have 2: "normalize_severity (\<lambda>s. s) ''High'' \<in> set severity_names"
    by (rule inst[THEN conjunct2, THEN conjunct2, THEN conjunct2, THEN conjunct1,
          THEN mp, THEN mp, OF a h])
  show ?thesis
    by (intro conjI a h 1[unfolded upper_examples] 2)
qed

section \<open>Properties of merge-scan-results.py: CVSS selection\<close>

text \<open>A loop that keeps the first true value it is given.\<close>

lemma keep_truthy:
  "truthy acc \<Longrightarrow> foldl (\<lambda>a x. if \<not> truthy a then x else a) acc xs = acc"
  by (induction xs) auto

lemma first_truthy_Cons:
  "first_truthy (x # xs) = (if truthy x then x else first_truthy xs)"
  by (simp add: first_truthy_def)

lemma pick_first_truthy:
  assumes "\<not> truthy acc"
  shows "if list_ex truthy xs
         then foldl (\<lambda>a x. if \<not> truthy a then x else a) acc xs = first_truthy xs
         else \<not> truthy (foldl (\<lambda>a x. if \<not> truthy a then x else a) acc xs)"
  using assms
proof (induction xs arbitrary: acc)
  case Nil
  then show ?case by simp
next
  case (Cons x xs)
  show ?case
  proof (cases "truthy x")
    case True
    with Cons.prems show ?thesis
      by (simp add: keep_truthy first_truthy_Cons)
  next
    case False
    from Cons.IH[OF False] False Cons.prems show ?thesis
      by (simp add: first_truthy_Cons)
  qed
qed

lemma cvss_step_not_dict: "\<not> (\<exists>d. v = JObj d) \<Longrightarrow> cvss_step acc v = acc"
  by (cases v) (simp_all add: cvss_step_def)

lemma foldl_cvss_step_dicts:
  "foldl cvss_step acc (map snd cvss_data)
     = foldl (\<lambda>a d. cvss_step a (JObj d)) acc (source_dicts cvss_data)"
proof (induction cvss_data arbitrary: acc)
  case Nil
  then show ?case by (simp add: source_dicts_def)
next
  case (Cons p ps)
  obtain name v where p: "p = (name, v)" by (cases p)
  show ?case
  proof (cases "\<exists>d. v = JObj d")
    case True
    then obtain d where "v = JObj d" by blast
    with p Cons.IH show ?thesis by (simp add: source_dicts_def)
  next
    case False
    then have step: "cvss_step acc v = acc"
      by (rule cvss_step_not_dict)
    from False have "(case v of JObj d \<Rightarrow> [d] | _ \<Rightarrow> []) = []"
      by (cases v) simp_all
    with p Cons.IH step show ?thesis by (simp add: source_dicts_def)
  qed
qed

lemma values_under_Cons:
  "values_under k (d # ds) =
     (case map_of d k of None \<Rightarrow> values_under k ds | Some x \<Rightarrow> x # values_under k ds)"
  by (simp add: values_under_def split: option.splits)

lemma offered_vectors_Cons:
  "offered_vectors (d # ds) =
     (case offered_vector d of None \<Rightarrow> offered_vectors ds | Some x \<Rightarrow> x # offered_vectors ds)"
  by (simp add: offered_vectors_def split: option.splits)

lemma cvss_step_dict:
  "cvss_step (v2, v3, vec) (JObj d) =
     (case map_of d ''V2Score'' of None \<Rightarrow> v2 | Some x \<Rightarrow> if \<not> truthy v2 then x else v2,
      case map_of d ''V3Score'' of None \<Rightarrow> v3 | Some x \<Rightarrow> if \<not> truthy v3 then x else v3,
      case offered_vector d of None \<Rightarrow> vec | Some x \<Rightarrow> if \<not> truthy vec then x else vec)"
  by (auto simp: cvss_step_def offered_vector_def split: option.splits)

lemma foldl_cvss_step_components:
  "foldl (\<lambda>a d. cvss_step a (JObj d)) (v2, v3, vec) ds =
     (foldl (\<lambda>a x. if \<not> truthy a then x else a) v2 (values_under ''V2Score'' ds),
      foldl (\<lambda>a x. if \<not> truthy a then x else a) v3 (values_under ''V3Score'' ds),
      foldl (\<lambda>a x. if \<not> truthy a then x else a) vec (offered_vectors ds))"
proof (induction ds arbitrary: v2 v3 vec)
  case Nil
  then show ?case by (simp add: values_under_def offered_vectors_def)
next
  case (Cons d ds)
  show ?case
    unfolding foldl_Cons cvss_step_dict Cons.IH values_under_Cons offered_vectors_Cons
    by (simp split: option.splits)
qed

lemma select_cvss_components:
  "select_cvss cvss_data =
     (foldl (\<lambda>a x. if \<not> truthy a then x else a) JNull
            (values_under ''V2Score'' (source_dicts cvss_data)),
      foldl (\<lambda>a x. if \<not> truthy a then x else a) JNull
            (values_under ''V3Score'' (source_dicts cvss_data)),
      foldl (\<lambda>a x. if \<not> truthy a then x else a) JNull
            (offered_vectors (source_dicts cvss_data)))"
  by (simp add: select_cvss_def foldl_cvss_step_dicts foldl_cvss_step_components)

lemma not_truthy_JNull: "\<not> truthy JNull"
  by (simp add: truthy_def)

lemma select_cvss_first:
  "(if list_ex truthy (values_under ''V2Score'' (source_dicts c))
    then fst (select_cvss c) = first_truthy (values_under ''V2Score'' (source_dicts c))
    else \<not> truthy (fst (select_cvss c)))"
  "(if list_ex truthy (values_under ''V3Score'' (source_dicts c))
    then fst (snd (select_cvss c)) = first_truthy (values_under ''V3Score'' (source_dicts c))
    else \<not> truthy (fst (snd (select_cvss c))))"
  "(if list_ex truthy (offered_vectors (source_dicts c))
    then snd (snd (select_cvss c)) = first_truthy (offered_vectors (source_dicts c))
    else \<not> truthy (snd (snd (select_cvss c))))"
  unfolding select_cvss_components fst_conv snd_conv
  using pick_first_truthy[OF not_truthy_JNull] by blast+

lemma source_dicts_append: "source_dicts (xs @ ys) = source_dicts xs @ source_dicts ys"
  by (simp add: source_dicts_def)

lemma values_under_append: "values_under k (xs @ ys) = values_under k xs @ values_under k ys"
  by (simp add: values_under_def List.map_filter_def)

lemma offered_vectors_append: "offered_vectors (xs @ ys) = offered_vectors xs @ offered_vectors ys"
  by (simp add: offered_vectors_def List.map_filter_def)

lemma select_cvss_keeps:
  "truthy (fst (select_cvss xs)) \<Longrightarrow> fst (select_cvss (xs @ ys)) = fst (select_cvss xs)"
  "truthy (fst (snd (select_cvss xs))) \<Longrightarrow>
     fst (snd (select_cvss (xs @ ys))) = fst (snd (select_cvss xs))"
  "truthy (snd (snd (select_cvss xs))) \<Longrightarrow>
     snd (snd (select_cvss (xs @ ys))) = snd (snd (select_cvss xs))"
  unfolding select_cvss_components fst_conv snd_conv source_dicts_append
    values_under_append offered_vectors_append foldl_append
  by (simp_all add: keep_truthy)

lemma normalize_trivy_dict:
  assumes "CVSS vuln = Some (JObj items)"
  obtains f where "normalize_trivy u tgt ty vuln = Inr f"
    "cvss_v2_score f = fst (select_cvss items)"
    "cvss_v3_score f = fst (snd (select_cvss items))"
    "cvss_vector f = snd (snd (select_cvss items))"
    "cvss_score f = (if truthy (fst (snd (select_cvss items)))
                     then fst (snd (select_cvss items)) else fst (select_cvss items))"
proof -
  obtain v2 v3 vec where sel: "select_cvss items = (v2, v3, vec)"
    by (cases "select_cvss items")
  let ?f = "\<lparr>vuln_id = get_str (VulnerabilityID vuln),
                 package = get_str (PkgName vuln),
                 version = get_str (InstalledVersion vuln),
                 severity = normalize_severity u (get_str (Severity vuln)),
                 title = get_str (Title vuln),
                 description = get_str (Description vuln),
                 fixed_version = get_str (FixedVersion vuln),
                 cvss_score = (if truthy v3 then v3 else v2),
                 cvss_v2_score = v2,
                 cvss_v3_score = v3,
                 cvss_vector = vec,
                 references = References vuln,
                 target = tgt,
                 vuln_type = ty,
                 source = ''trivy'',
                 found_by = None\<rparr>"
  have "normalize_trivy u tgt ty vuln = Inr ?f"
    by (simp add: normalize_trivy_def cvss_items_def assms sel)
  then show ?thesis
    by (rule that) (simp_all add: sel)
qed

text \<open>
  Claim C4, as amended. For a Trivy vulnerability whose \<open>CVSS\<close> is a dict of sources,
  \<open>parse_trivy_results\<close> builds a finding in which \<open>cvss_v2_score\<close> is the first
  true value that the sources which are dicts hold under \<open>V2Score\<close>, in the order of
  the document, \<open>cvss_v3_score\<close> the first true value under \<open>V3Score\<close>, and
  \<open>cvss_vector\<close> the first true value among those the sources offer, where a source
  with the key \<open>V3Vector\<close> offers the value under it, whatever that value, and any
  other source the value under \<open>V2Vector\<close>; a field for which no true value is found
  ends false. \<open>cvss_score\<close> is the version 3 score when that is true and the version 2
  score otherwise. A true score or vector, once set, is not changed by sources that
  follow. The preference of version 3 over version 2 for the vector is thus a preference
  inside one source: the vector of an earlier source is kept whatever its version.
\<close>

theorem parse_trivy_cvss_selection:
  assumes "CVSS vuln = Some (JObj items)"
  shows "\<exists>f. normalize_trivy unicode_upper tgt ty vuln = Inr f
    \<and> (if list_ex truthy (values_under ''V2Score'' (source_dicts items))
        then cvss_v2_score f = first_truthy (values_under ''V2Score'' (source_dicts items))
        else \<not> truthy (cvss_v2_score f))
    \<and> (if list_ex truthy (values_under ''V3Score'' (source_dicts items))
        then cvss_v3_score f = first_truthy (values_under ''V3Score'' (source_dicts items))
        else \<not> truthy (cvss_v3_score f))
    \<and> (if list_ex truthy (offered_vectors (source_dicts items))
        then cvss_vector f = first_truthy (offered_vectors (source_dicts items))
        else \<not> truthy (cvss_vector f))
    \<and> cvss_score f = (if truthy (cvss_v3_score f) then cvss_v3_score f else cvss_v2_score f)
    \<and> (CVSS later = Some (JObj (items @ extra)) \<longrightarrow>
        (\<exists>g. normalize_trivy unicode_upper tgt ty later = Inr g \<and>
           (truthy (cvss_v2_score f) \<longrightarrow> cvss_v2_score g = cvss_v2_score f) \<and>
           (truthy (cvss_v3_score f) \<longrightarrow> cvss_v3_score g = cvss_v3_score f) \<and>
           (truthy (cvss_vector f) \<longrightarrow> cvss_vector g = cvss_vector f)))"
proof -
  obtain f where f: "normalize_trivy unicode_upper tgt ty vuln = Inr f"
    and f2: "cvss_v2_score f = fst (select_cvss items)"
    and f3: "cvss_v3_score f = fst (snd (select_cvss items))"
    and fv: "cvss_vector f = snd (snd (select_cvss items))"
    and fs: "cvss_score f = (if truthy (fst (snd (select_cvss items)))
                     then fst (snd (select_cvss items)) else fst (select_cvss items))"
    using assms by (rule normalize_trivy_dict)
  have v2: "if list_ex truthy (values_under ''V2Score'' (source_dicts items))
        then cvss_v2_score f = first_truthy (values_under ''V2Score'' (source_dicts items))
        else \<not> truthy (cvss_v2_score f)"
    unfolding f2 by (rule select_cvss_first(1))
  have v3: "if list_ex truthy (values_under ''V3Score'' (source_dicts items))
        then cvss_v3_score f = first_truthy (values_under ''V3Score'' (source_dicts items))
        else \<not> truthy (cvss_v3_score f)"
    unfolding f3 by (rule select_cvss_first(2))
  have vec: "if list_ex truthy (offered_vectors (source_dicts items))
        then cvss_vector f = first_truthy (offered_vectors (source_dicts items))
        else \<not> truthy (cvss_vector f)"
    unfolding fv by (rule select_cvss_first(3))
  have score: "cvss_score f
      = (if truthy (cvss_v3_score f) then cvss_v3_score f else cvss_v2_score f)"
    unfolding fs f2 f3 by (rule refl)
  have keep: "CVSS later = Some (JObj (items @ extra)) \<longrightarrow>
        (\<exists>g. normalize_trivy unicode_upper tgt ty later = Inr g \<and>
           (truthy (cvss_v2_score f) \<longrightarrow> cvss_v2_score g = cvss_v2_score f) \<and>
           (truthy (cvss_v3_score f) \<longrightarrow> cvss_v3_score g = cvss_v3_score f) \<and>
           (truthy (cvss_vector f) \<longrightarrow> cvss_vector g = cvss_vector f))"
  proof (rule impI)
    assume later: "CVSS later = Some (JObj (items @ extra))"
    obtain g where g: "normalize_trivy unicode_upper tgt ty later = Inr g"
      and g2: "cvss_v2_score g = fst (select_cvss (items @ extra))"
      and g3: "cvss_v3_score g = fst (snd (select_cvss (items @ extra)))"
      and gv: "cvss_vector g = snd (snd (select_cvss (items @ extra)))"
      using later by (rule normalize_trivy_dict)
    have "truthy (cvss_v2_score f) \<longrightarrow> cvss_v2_score g = cvss_v2_score f"
      unfolding f2 g2 using select_cvss_keeps(1) by blast
    moreover have "truthy (cvss_v3_score f) \<longrightarrow> cvss_v3_score g = cvss_v3_score f"
      unfolding f3 g3 using select_cvss_keeps(2) by blast
    moreover have "truthy (cvss_vector f) \<longrightarrow> cvss_vector g = cvss_vector f"
      unfolding fv gv using select_cvss_keeps(3) by blast
    ultimately show "\<exists>g. normalize_trivy unicode_upper tgt ty later = Inr g \<and>
           (truthy (cvss_v2_score f) \<longrightarrow> cvss_v2_score g = cvss_v2_score f) \<and>
           (truthy (cvss_v3_score f) \<longrightarrow> cvss_v3_score g = cvss_v3_score f) \<and>
           (truthy (cvss_vector f) \<longrightarrow> cvss_vector g = cvss_vector f)"
      using g by blast
  qed
  show ?thesis
    by (rule exI[of _ f]) (intro conjI f v2 v3 vec score keep)
qed

lemma old_cve_dicts:
  "source_dicts old_cve_sources =
     [[(''V2Vector'', JStr ''AV:N/AC:L/Au:N/C:P/I:N/A:N''), (''V2Score'', JNum 5)],
      [(''V3Vector'', JStr ''CVSS:3.1/AV:N/AC:L/PR:N/UI:N/S:U/C:H/I:N/A:N''),
       (''V3Score'', JNum 7.5)]]"
  by (simp add: old_cve_sources_def source_dicts_def)

lemma old_cve_values:
  "values_under ''V3Vector'' (source_dicts old_cve_sources)
     = [JStr ''CVSS:3.1/AV:N/AC:L/PR:N/UI:N/S:U/C:H/I:N/A:N'']"
  "values_under ''V2Vector'' (source_dicts old_cve_sources)
     = [JStr ''AV:N/AC:L/Au:N/C:P/I:N/A:N'']"
  by (simp_all add: old_cve_dicts values_under_def)

lemma old_cve_selected:
  "select_cvss old_cve_sources = (JNum 5, JNum 7.5, JStr ''AV:N/AC:L/Au:N/C:P/I:N/A:N'')"
  by (simp add: select_cvss_def old_cve_sources_def cvss_step_def truthy_def)

lemma null_v3_selected: "select_cvss null_v3_sources = (JNull, JNull, JNull)"
  by (simp add: select_cvss_def null_v3_sources_def cvss_step_def truthy_def)

lemma old_cve_CVSS: "CVSS old_cve = Some (JObj old_cve_sources)"
  by (simp add: old_cve_def)

text \<open>
  The claim C4 as stated fails where it has a version 3 vector preferred whenever both
  exist: the first source of \<open>old_cve\<close> has a version 2 vector only and the second
  a version 3 vector only, and the finding keeps the version 2 vector (next to the
  version 3 score).
\<close>

theorem parse_trivy_cvss_selection_counterexample:
  "\<forall>unicode_upper. \<exists>f. parse_trivy_results unicode_upper old_cve_document = Inr [f]
     \<and> values_under ''V3Vector'' (source_dicts old_cve_sources)
         = [JStr ''CVSS:3.1/AV:N/AC:L/PR:N/UI:N/S:U/C:H/I:N/A:N'']
     \<and> values_under ''V2Vector'' (source_dicts old_cve_sources)
         = [JStr ''AV:N/AC:L/Au:N/C:P/I:N/A:N'']
     \<and> cvss_vector f = JStr ''AV:N/AC:L/Au:N/C:P/I:N/A:N''
     \<and> cvss_score f = JNum 7.5"
proof
  fix unicode_upper
  obtain f where f: "normalize_trivy unicode_upper ''app:1 (debian 12)'' ''debian'' old_cve = Inr f"
    and fv: "cvss_vector f = snd (snd (select_cvss old_cve_sources))"
    and fs: "cvss_score f = (if truthy (fst (snd (select_cvss old_cve_sources)))
                     then fst (snd (select_cvss old_cve_sources))
                     else fst (select_cvss old_cve_sources))"
    using old_cve_CVSS by (rule normalize_trivy_dict)
  have p: "parse_trivy_results unicode_upper old_cve_document = Inr [f]"
    by (simp add: parse_trivy_results_def old_cve_document_def get_str_def f)
  have v: "cvss_vector f = JStr ''AV:N/AC:L/Au:N/C:P/I:N/A:N''"
    by (simp add: fv old_cve_selected)
  have s: "cvss_score f = JNum 7.5"
    by (simp add: fs old_cve_selected truthy_def)
  show "\<exists>f. parse_trivy_results unicode_upper old_cve_document = Inr [f]
     \<and> values_under ''V3Vector'' (source_dicts old_cve_sources)
         = [JStr ''CVSS:3.1/AV:N/AC:L/PR:N/UI:N/S:U/C:H/I:N/A:N'']
     \<and> values_under ''V2Vector'' (source_dicts old_cve_sources)
         = [JStr ''AV:N/AC:L/Au:N/C:P/I:N/A:N'']
     \<and> cvss_vector f = JStr ''AV:N/AC:L/Au:N/C:P/I:N/A:N''
     \<and> cvss_score f = JNum 7.5"
    by (rule exI[of _ f]) (intro conjI p old_cve_values v s)
qed

lemma null_v3_offered: "offered_vectors (source_dicts null_v3_sources) = [JNull]"
  by (simp add: null_v3_sources_def source_dicts_def offered_vectors_def offered_vector_def)

lemma old_cve_v3_scores:
  "values_under ''V3Score'' (source_dicts old_cve_sources) = [JNum 7.5]"
  by (simp add: old_cve_dicts values_under_def)

theorem parse_trivy_cvss_selection_witness:
  "CVSS old_cve = Some (JObj old_cve_sources)
   \<and> (\<exists>f. normalize_trivy (\<lambda>s. s) ''t'' ''debian'' old_cve = Inr f
         \<and> cvss_v3_score f = JNum 7.5)
   \<and> CVSS (old_cve\<lparr>CVSS := Some (JObj null_v3_sources)\<rparr>) = Some (JObj null_v3_sources)
   \<and> (\<exists>f. normalize_trivy (\<lambda>s. s) ''t'' ''debian''
             (old_cve\<lparr>CVSS := Some (JObj null_v3_sources)\<rparr>) = Inr f
         \<and> \<not> truthy (cvss_vector f))"
proof -
  have c2: "CVSS (old_cve\<lparr>CVSS := Some (JObj null_v3_sources)\<rparr>) = Some (JObj null_v3_sources)"
    by simp
  from parse_trivy_cvss_selection[OF old_cve_CVSS, where unicode_upper = "\<lambda>s. s"
      and tgt = "''t''" and ty = "''debian''"]
  obtain f where f: "normalize_trivy (\<lambda>s. s) ''t'' ''debian'' old_cve = Inr f"
    and v3: "if list_ex truthy (values_under ''V3Score'' (source_dicts old_cve_sources))
        then cvss_v3_score f = first_truthy (values_under ''V3Score'' (source_dicts old_cve_sources))
        else \<not> truthy (cvss_v3_score f)"
    by blast
  from v3 have v3': "cvss_v3_score f = JNum 7.5"
    by (simp add: old_cve_v3_scores truthy_def first_truthy_def)
  from parse_trivy_cvss_selection[OF c2, where unicode_upper = "\<lambda>s. s"
      and tgt = "''t''" and ty = "''debian''"]
  obtain g where g: "normalize_trivy (\<lambda>s. s) ''t'' ''debian''
             (old_cve\<lparr>CVSS := Some (JObj null_v3_sources)\<rparr>) = Inr g"
    and vec: "if list_ex truthy (offered_vectors (source_dicts null_v3_sources))
        then cvss_vector g = first_truthy (offered_vectors (source_dicts null_v3_sources))
        else \<not> truthy (cvss_vector g)"
    by blast
  from vec have vec': "\<not> truthy (cvss_vector g)"
    by (simp add: null_v3_offered truthy_def)
  have 1: "\<exists>f. normalize_trivy (\<lambda>s. s) ''t'' ''debian'' old_cve = Inr f
         \<and> cvss_v3_score f = JNum 7.5"
    by (rule exI[of _ f]) (intro conjI f v3')
  have 2: "\<exists>f. normalize_trivy (\<lambda>s. s) ''t'' ''debian''
             (old_cve\<lparr>CVSS := Some (JObj null_v3_sources)\<rparr>) = Inr f
         \<and> \<not> truthy (cvss_vector f)"
    by (rule exI[of _ g]) (intro conjI g vec')
  show ?thesis
    by (intro conjI old_cve_CVSS 1 c2 2)
qed


section \<open>Properties of merge-scan-results.py: merging\<close>

lemma same_fixed_fields_refl: "same_fixed_fields f f"
  by (simp add: same_fixed_fields_def)

lemma same_fixed_fields_trans:
  "same_fixed_fields f g \<Longrightarrow> same_fixed_fields g k \<Longrightarrow> same_fixed_fields f k"
  by (simp add: same_fixed_fields_def)

lemma same_fixed_fields_key:
  "same_fixed_fields f g \<Longrightarrow> create_vuln_key g = create_vuln_key f"
  by (simp add: same_fixed_fields_def create_vuln_key_def)

lemma same_fixed_fields_found_by: "same_fixed_fields f (f\<lparr>found_by := x\<rparr>)"
  by (simp add: same_fixed_fields_def)

lemma update_set_cases:
  "(k', v') \<in> set (AList.update k v al) \<Longrightarrow> (k', v') = (k, v) \<or> (k', v') \<in> set al"
  by (induction al) (auto split: if_splits)

lemma update_absent: "k \<notin> fst ` set al \<Longrightarrow> AList.update k v al = al @ [(k, v)]"
  by (induction al) auto

lemma update_new_in: "(k, v) \<in> set (AList.update k v al)"
  by (induction al) auto

lemma update_values_subset: "snd ` set (AList.update k v al) \<subseteq> insert v (snd ` set al)"
  using update_set_cases by fastforce

lemma merge_into_other: "x \<noteq> e \<Longrightarrow> merge_into e a h x = h x"
  by (simp add: merge_into_def Let_def)

lemma merge_into_fixed: "same_fixed_fields (h e) (merge_into e a h e)"
  by (simp add: merge_into_def Let_def same_fixed_fields_def)

lemma merge_into_found_by:
  "found_by (merge_into e a h e) = map_option (\<lambda>l. l @ [''grype'']) (found_by (h e))"
  by (simp add: merge_into_def Let_def)

lemma merge_into_fixed_all: "same_fixed_fields (h x) (merge_into e a h x)"
  by (cases "x = e") (simp_all add: merge_into_other merge_into_fixed same_fixed_fields_refl)

lemma trivy_inv_init: "trivy_inv h0 [] (h0, [])"
  by (simp add: trivy_inv_def same_fixed_fields_refl)

lemma trivy_inv_step:
  assumes "trivy_inv h0 seen st"
  shows "trivy_inv h0 (seen @ [a]) (add_trivy st a)"
proof -
  obtain h merged where st: "st = (h, merged)" by (cases st)
  from assms st have fixed: "\<And>x. same_fixed_fields (h0 x) (h x)"
    and frame: "\<And>x. x \<notin> set seen \<Longrightarrow> h x = h0 x"
    and fb: "\<And>x. x \<in> set seen \<Longrightarrow> found_by (h x) = Some [''trivy'']"
    and vals: "\<And>k v. (k, v) \<in> set merged \<Longrightarrow> v \<in> set seen \<and> k = create_vuln_key (h0 v)"
    and keys: "fst ` set merged = (\<lambda>a. create_vuln_key (h0 a)) ` set seen"
    and dist: "distinct (map fst merged)"
    by (auto simp: trivy_inv_def)
  let ?key = "create_vuln_key (h0 a)"
  let ?h = "h(a := (h a)\<lparr>found_by := Some [''trivy'']\<rparr>)"
  let ?m = "AList.update ?key a merged"
  have key: "create_vuln_key (h a) = ?key"
    by (rule same_fixed_fields_key[OF fixed])
  have step: "add_trivy st a = (?h, ?m)"
    by (simp add: add_trivy_def st Let_def key)
  have 1: "\<forall>x. same_fixed_fields (h0 x) (?h x)"
    using fixed by (auto intro: same_fixed_fields_trans same_fixed_fields_found_by)
  have 2: "\<forall>x. x \<notin> set (seen @ [a]) \<longrightarrow> ?h x = h0 x"
    using frame by simp
  have 3: "\<forall>x \<in> set (seen @ [a]). found_by (?h x) = Some [''trivy'']"
    using fb by simp
  have 4: "\<forall>(k, v) \<in> set ?m. v \<in> set (seen @ [a]) \<and> k = create_vuln_key (h0 v)"
    using vals update_set_cases[of _ _ ?key a merged] by fastforce
  have 5: "fst ` set ?m = (\<lambda>a. create_vuln_key (h0 a)) ` set (seen @ [a])"
    by (simp add: dom_update keys)
  have 6: "distinct (map fst ?m)"
    using dist by (rule distinct_update)
  from 1 2 3 4 5 6 show ?thesis
    unfolding step trivy_inv_def by simp
qed

lemma trivy_inv_foldl: "trivy_inv h0 ts (foldl add_trivy (h0, []) ts)"
  by (induction ts rule: rev_induct) (simp_all add: trivy_inv_init trivy_inv_step)

lemma grype_inv_init:
  assumes "trivy_inv h0 ts (h, merged)"
  shows "grype_inv h0 ts [] (h, merged, \<lparr>trivy_only = 0, grype_only = 0, both = 0\<rparr>)"
proof -
  from assms have keys: "fst ` set merged = (\<lambda>a. create_vuln_key (h0 a)) ` set ts"
    and dist: "distinct (map fst merged)"
    by (auto simp: trivy_inv_def)
  have "card (fst ` set merged) = length merged"
    using distinct_card[OF dist] by simp
  with keys have len: "int (length merged) = int (card ((\<lambda>a. create_vuln_key (h0 a)) ` set ts))"
    by simp
  from assms len show ?thesis
    unfolding trivy_inv_def grype_inv_def by fastforce
qed

lemma grype_inv_step:
  assumes "grype_inv h0 ts seen st"
  shows "grype_inv h0 ts (seen @ [a]) (add_grype st a)"
proof -
  obtain h merged stats where st: "st = (h, merged, stats)" by (cases st)
  let ?k0 = "\<lambda>a. create_vuln_key (h0 a)"
  from assms st have fixed: "\<And>x. same_fixed_fields (h0 x) (h x)"
    and frame: "\<And>x. x \<notin> set ts \<union> snd ` set merged \<Longrightarrow> h x = h0 x"
    and vals: "\<And>k v. (k, v) \<in> set merged \<Longrightarrow>
          v \<in> set ts \<union> set seen \<and> k = ?k0 v \<and> found_by (h v) \<noteq> None"
    and gr: "\<And>k v. (k, v) \<in> set merged \<Longrightarrow> k \<in> ?k0 ` set seen \<Longrightarrow>
          \<exists>l. found_by (h v) = Some l \<and> ''grype'' \<in> set l"
    and tfb: "\<And>x. x \<in> set ts \<Longrightarrow> found_by (h x) \<noteq> None"
    and keys: "fst ` set merged = ?k0 ` (set ts \<union> set seen)"
    and dist: "distinct (map fst merged)"
    and cnt: "both stats + grype_only stats = int (length seen)"
    and new: "grype_only stats = int (length merged) - int (card (?k0 ` set ts))"
    unfolding grype_inv_def by (auto simp del: not_None_eq)
  have key: "create_vuln_key (h a) = ?k0 a"
    by (rule same_fixed_fields_key[OF fixed])
  show ?thesis
  proof (cases "map_of merged (?k0 a)")
    case (Some e)
    let ?h = "merge_into e a h"
    have step: "add_grype st a = (?h, merged, stats\<lparr>both := both stats + 1\<rparr>)"
      by (simp add: add_grype_def st Let_def key Some)
    have e_in: "(?k0 a, e) \<in> set merged"
      using Some by (rule map_of_SomeD)
    have uniq: "\<And>v. (?k0 a, v) \<in> set merged \<Longrightarrow> v = e"
      using Some dist by (metis map_of_is_SomeI option.inject)
    have 1: "\<forall>x. same_fixed_fields (h0 x) (?h x)"
      using fixed merge_into_fixed_all by (blast intro: same_fixed_fields_trans)
    have 2: "\<forall>x. x \<notin> set ts \<union> snd ` set merged \<longrightarrow> ?h x = h0 x"
    proof (intro allI impI)
      fix x assume x: "x \<notin> set ts \<union> snd ` set merged"
      with e_in have "x \<noteq> e" by force
      with frame[OF x] show "?h x = h0 x" by (simp add: merge_into_other)
    qed
    have fb: "\<And>x. found_by (h x) \<noteq> None \<Longrightarrow> found_by (?h x) \<noteq> None"
    proof -
      fix x assume "found_by (h x) \<noteq> None"
      then show "found_by (?h x) \<noteq> None"
        by (cases "x = e") (simp_all add: merge_into_other merge_into_found_by)
    qed
    have 3: "\<forall>(k, v) \<in> set merged. v \<in> set ts \<union> set (seen @ [a]) \<and> k = ?k0 v \<and>
            found_by (?h v) \<noteq> None"
    proof (rule ballI)
      fix p assume p: "p \<in> set merged"
      obtain k v where kv: "p = (k, v)" by (cases p)
      from vals[of k v] p kv
      have v: "v \<in> set ts \<union> set seen" "k = ?k0 v" "found_by (h v) \<noteq> None"
        by simp_all
      from fb[OF v(3)] v(1,2)
      show "case p of (k, v) \<Rightarrow> v \<in> set ts \<union> set (seen @ [a]) \<and> k = ?k0 v \<and>
            found_by (?h v) \<noteq> None"
        unfolding kv by (simp del: not_None_eq)
    qed
    have g4: "\<exists>l. found_by (?h v) = Some l \<and> ''grype'' \<in> set l"
      if kv: "(?k0 x, v) \<in> set merged" and x: "x \<in> set (seen @ [a])" for v x
    proof -
      show ?thesis
      proof (cases "v = e")
        case True
        from vals[OF e_in] obtain l where "found_by (h e) = Some l" by auto
        with True show ?thesis by (simp add: merge_into_found_by)
      next
        case False
        with uniq kv have "?k0 x \<noteq> ?k0 a" by metis
        with x have "?k0 x \<in> ?k0 ` set seen" by auto
        from gr[OF kv this] False show ?thesis by (simp add: merge_into_other)
      qed
    qed
    have 4: "\<forall>(k, v) \<in> set merged. k \<in> ?k0 ` set (seen @ [a]) \<longrightarrow>
            (\<exists>l. found_by (?h v) = Some l \<and> ''grype'' \<in> set l)"
      using g4 by blast
    have 5: "\<forall>x \<in> set ts. found_by (?h x) \<noteq> None"
      using tfb fb by blast
    have "?k0 a \<in> fst ` set merged"
      using e_in by force
    with keys have 6: "fst ` set merged = ?k0 ` (set ts \<union> set (seen @ [a]))"
      by auto
    have 7: "both (stats\<lparr>both := both stats + 1\<rparr>) + grype_only (stats\<lparr>both := both stats + 1\<rparr>)
        = int (length (seen @ [a]))"
      using cnt by simp
    have 8: "grype_only (stats\<lparr>both := both stats + 1\<rparr>)
        = int (length merged) - int (card (?k0 ` set ts))"
      using new by simp
    from 1 2 3 4 5 6 dist 7 8 show ?thesis
      unfolding step grype_inv_def by (simp del: not_None_eq)
  next
    case None
    let ?h = "h(a := (h a)\<lparr>found_by := Some [''grype'']\<rparr>)"
    let ?m = "AList.update (?k0 a) a merged"
    have step: "add_grype st a = (?h, ?m, stats\<lparr>grype_only := grype_only stats + 1\<rparr>)"
      by (simp add: add_grype_def st Let_def key None)
    have absent: "?k0 a \<notin> fst ` set merged"
      using None by (simp add: map_of_eq_None_iff)
    have m: "?m = merged @ [(?k0 a, a)]"
      by (rule update_absent[OF absent])
    have a_new: "a \<notin> snd ` set merged"
    proof
      assume "a \<in> snd ` set merged"
      then obtain k where "(k, a) \<in> set merged" by force
      with vals[OF this] absent show False by force
    qed
    have 1: "\<forall>x. same_fixed_fields (h0 x) (?h x)"
      using fixed by (auto intro: same_fixed_fields_trans same_fixed_fields_found_by)
    have 2: "\<forall>x. x \<notin> set ts \<union> snd ` set ?m \<longrightarrow> ?h x = h0 x"
      using frame by (auto simp: m)
    have 3: "\<forall>(k, v) \<in> set ?m. v \<in> set ts \<union> set (seen @ [a]) \<and> k = ?k0 v \<and>
            found_by (?h v) \<noteq> None"
    proof (rule ballI)
      fix p assume p: "p \<in> set ?m"
      obtain k v where kv: "p = (k, v)" by (cases p)
      show "case p of (k, v) \<Rightarrow> v \<in> set ts \<union> set (seen @ [a]) \<and> k = ?k0 v \<and>
            found_by (?h v) \<noteq> None"
      proof (cases "v = a \<and> k = ?k0 a")
        case True
        then show ?thesis unfolding kv by simp
      next
        case False
        with p kv have in_m: "(k, v) \<in> set merged" by (auto simp: m)
        with a_new have "v \<noteq> a" by force
        with vals[OF in_m] show ?thesis unfolding kv by (simp del: not_None_eq)
      qed
    qed
    have g4: "\<exists>l. found_by (?h v) = Some l \<and> ''grype'' \<in> set l"
      if kv: "(?k0 x, v) \<in> set ?m" and x: "x \<in> set (seen @ [a])" for v x
    proof -
      show ?thesis
      proof (cases "v = a")
        case True
        then show ?thesis by simp
      next
        case False
        with kv have in_m: "(?k0 x, v) \<in> set merged" by (auto simp: m)
        then have "?k0 x \<noteq> ?k0 a" using absent by force
        with x have "?k0 x \<in> ?k0 ` set seen" by auto
        from gr[OF in_m this] False show ?thesis by simp
      qed
    qed
    have 4: "\<forall>(k, v) \<in> set ?m. k \<in> ?k0 ` set (seen @ [a]) \<longrightarrow>
            (\<exists>l. found_by (?h v) = Some l \<and> ''grype'' \<in> set l)"
      using g4 by blast
    have 5: "\<forall>x \<in> set ts. found_by (?h x) \<noteq> None"
      using tfb by (auto simp del: not_None_eq)
    have 6: "fst ` set ?m = ?k0 ` (set ts \<union> set (seen @ [a]))"
      using keys by (auto simp: m)
    have 7: "distinct (map fst ?m)"
      using dist by (rule distinct_update)
    have 8: "both (stats\<lparr>grype_only := grype_only stats + 1\<rparr>)
          + grype_only (stats\<lparr>grype_only := grype_only stats + 1\<rparr>)
        = int (length (seen @ [a]))"
      using cnt by simp
    have 9: "grype_only (stats\<lparr>grype_only := grype_only stats + 1\<rparr>)
        = int (length ?m) - int (card (?k0 ` set ts))"
      using new by (simp add: m)
    from 1 2 3 4 5 6 7 8 9 show ?thesis
      unfolding step grype_inv_def by (simp del: not_None_eq)
  qed
qed

lemma grype_inv_foldl:
  "grype_inv h0 ts [] st \<Longrightarrow> grype_inv h0 ts gs (foldl add_grype st gs)"
  by (induction gs rule: rev_induct) (simp_all add: grype_inv_step)

lemma merge_vulnerabilities_inv:
  obtains h2 merged2 stats where
    "merge_vulnerabilities h0 ts gs =
       (h2, map snd merged2,
        stats\<lparr>trivy_only :=
          int (length (filter (\<lambda>v. found_by (h2 v) = Some [''trivy'']) (map snd merged2)))\<rparr>)"
    "grype_inv h0 ts gs (h2, merged2, stats)"
proof -
  obtain h1 merged1 where l1: "foldl add_trivy (h0, []) ts = (h1, merged1)"
    by (cases "foldl add_trivy (h0, []) ts")
  obtain h2 merged2 stats where
    l2: "foldl add_grype (h1, merged1, \<lparr>trivy_only = 0, grype_only = 0, both = 0\<rparr>) gs
           = (h2, merged2, stats)"
    by (cases "foldl add_grype (h1, merged1, \<lparr>trivy_only = 0, grype_only = 0, both = 0\<rparr>) gs")
  have "trivy_inv h0 ts (h1, merged1)"
    using trivy_inv_foldl[of h0 ts] by (simp add: l1)
  then have "grype_inv h0 ts gs (h2, merged2, stats)"
    using grype_inv_foldl[OF grype_inv_init, of h0 ts h1 merged1 gs] by (simp add: l2)
  moreover have "merge_vulnerabilities h0 ts gs =
       (h2, map snd merged2,
        stats\<lparr>trivy_only :=
          int (length (filter (\<lambda>v. found_by (h2 v) = Some [''trivy'']) (map snd merged2)))\<rparr>)"
    by (simp add: merge_vulnerabilities_def l1 l2)
  ultimately show ?thesis using that by blast
qed

lemma merge_same_keys:
  assumes "(\<lambda>a. create_vuln_key (h a)) ` set gs = (\<lambda>a. create_vuln_key (h a)) ` set ts"
  shows "case merge_vulnerabilities h ts gs of (h', out, stats) \<Rightarrow>
           distinct (map (\<lambda>a. create_vuln_key (h' a)) out) \<and>
           both stats = int (length gs) \<and> trivy_only stats = 0 \<and> grype_only stats = 0"
proof -
  let ?k0 = "\<lambda>a. create_vuln_key (h a)"
  obtain h2 merged2 stats where
    res: "merge_vulnerabilities h ts gs =
       (h2, map snd merged2,
        stats\<lparr>trivy_only :=
          int (length (filter (\<lambda>v. found_by (h2 v) = Some [''trivy'']) (map snd merged2)))\<rparr>)"
    and inv: "grype_inv h ts gs (h2, merged2, stats)"
    by (rule merge_vulnerabilities_inv)
  from inv have fixed: "\<And>x. same_fixed_fields (h x) (h2 x)"
    and vals: "\<And>k v. (k, v) \<in> set merged2 \<Longrightarrow> k = ?k0 v"
    and gr: "\<And>k v. (k, v) \<in> set merged2 \<Longrightarrow> k \<in> ?k0 ` set gs \<Longrightarrow>
          \<exists>l. found_by (h2 v) = Some l \<and> ''grype'' \<in> set l"
    and keys: "fst ` set merged2 = ?k0 ` (set ts \<union> set gs)"
    and dist: "distinct (map fst merged2)"
    and cnt: "both stats + grype_only stats = int (length gs)"
    and new: "grype_only stats = int (length merged2) - int (card (?k0 ` set ts))"
    unfolding grype_inv_def by (auto simp del: not_None_eq)
  have keys': "fst ` set merged2 = ?k0 ` set ts" "fst ` set merged2 = ?k0 ` set gs"
    using keys assms by (auto simp: image_Un)
  have eq: "map (\<lambda>a. create_vuln_key (h2 a)) (map snd merged2) = map fst merged2"
  proof (simp, rule ballI)
    fix p assume p: "p \<in> set merged2"
    obtain k v where kv: "p = (k, v)" by (cases p)
    from p kv vals[of k v] same_fixed_fields_key[OF fixed, of v]
    show "create_vuln_key (h2 (snd p)) = fst p" by simp
  qed
  have 1: "distinct (map (\<lambda>a. create_vuln_key (h2 a)) (map snd merged2))"
    unfolding eq by (rule dist)
  have "card (fst ` set merged2) = length merged2"
    using distinct_card[OF dist] by simp
  with new keys'(1) have 4: "grype_only stats = 0" by simp
  with cnt have 2: "both stats = int (length gs)" by simp
  have "filter (\<lambda>v. found_by (h2 v) = Some [''trivy'']) (map snd merged2) = []"
  proof (simp add: filter_empty_conv, rule ballI)
    fix p assume p: "p \<in> set merged2"
    obtain k v where kv: "p = (k, v)" by (cases p)
    from p kv have "k \<in> ?k0 ` set gs" using keys'(2) by force
    from gr[of k v] p kv this obtain l where "found_by (h2 v) = Some l" "''grype'' \<in> set l"
      by auto
    then show "found_by (h2 (snd p)) \<noteq> Some [''trivy'']" using kv by auto
  qed
  then have 3: "int (length (filter (\<lambda>v. found_by (h2 v) = Some [''trivy''])
      (map snd merged2))) = 0"
    by simp
  from 1 2 3 4 show ?thesis
    unfolding res by simp
qed

text \<open>
  Claim C5. Merging a sequence of findings with itself (the same list of the same
  objects as both arguments) returns findings with pairwise different keys, counts every
  finding of the sequence as found by both scanners, and counts none as found by one
  scanner only.
\<close>

theorem merge_with_itself:
  "case merge_vulnerabilities h S S of (h', out, stats) \<Rightarrow>
     distinct (map (\<lambda>a. create_vuln_key (h' a)) out) \<and>
     both stats = int (length S) \<and> trivy_only stats = 0 \<and> grype_only stats = 0"
  by (rule merge_same_keys) (rule refl)

text \<open>
  Claim C8, as amended. \<open>merge_vulnerabilities\<close> works in place: the findings it
  returns are objects of its two input sequences, and it assigns to their keys
  \<open>found_by\<close>, \<open>description\<close>, \<open>fixed_version\<close> and \<open>references\<close>. After the
  call every other key of every finding has the value it had before, a finding that is
  neither in the first sequence nor returned is unchanged altogether, and every finding
  of the first sequence and every returned finding has the key \<open>found_by\<close>.
\<close>

theorem merge_changes_findings_in_place:
  "case merge_vulnerabilities h ts gs of (h', out, stats) \<Rightarrow>
     (\<forall>a. same_fixed_fields (h a) (h' a)) \<and>
     set out \<subseteq> set ts \<union> set gs \<and>
     (\<forall>a. a \<notin> set ts \<union> set out \<longrightarrow> h' a = h a) \<and>
     (\<forall>a \<in> set ts \<union> set out. found_by (h' a) \<noteq> None)"
proof -
  obtain h2 merged2 stats where
    res: "merge_vulnerabilities h ts gs =
       (h2, map snd merged2,
        stats\<lparr>trivy_only :=
          int (length (filter (\<lambda>v. found_by (h2 v) = Some [''trivy'']) (map snd merged2)))\<rparr>)"
    and inv: "grype_inv h ts gs (h2, merged2, stats)"
    by (rule merge_vulnerabilities_inv)
  from inv have fixed: "\<forall>x. same_fixed_fields (h x) (h2 x)"
    and frame: "\<forall>x. x \<notin> set ts \<union> snd ` set merged2 \<longrightarrow> h2 x = h x"
    and vals: "\<And>k v. (k, v) \<in> set merged2 \<Longrightarrow>
          v \<in> set ts \<union> set gs \<and> found_by (h2 v) \<noteq> None"
    and tfb: "\<And>x. x \<in> set ts \<Longrightarrow> found_by (h2 x) \<noteq> None"
    unfolding grype_inv_def by (auto simp del: not_None_eq)
  have out: "x \<in> set ts \<union> set gs \<and> found_by (h2 x) \<noteq> None"
    if "x \<in> set (map snd merged2)" for x
  proof -
    from that obtain k where "(k, x) \<in> set merged2" by force
    from vals[OF this] show ?thesis .
  qed
  have sub: "set (map snd merged2) \<subseteq> set ts \<union> set gs"
    using out by blast
  have fb: "\<forall>a \<in> set ts \<union> set (map snd merged2). found_by (h2 a) \<noteq> None"
    using out tfb by blast
  from fixed sub frame fb show ?thesis
    unfolding res by (simp del: not_None_eq)
qed

lemma lower_foo: "lower ''foo'' = ''foo''" "lower ''Foo'' = ''foo''"
  by code_simp+

lemma example_keys:
  "create_vuln_key trivy_report = (''CVE-2024-1'', ''foo'', ''1.0'')"
  "create_vuln_key grype_report = (''CVE-2024-1'', ''foo'', ''1.0'')"
  by (simp_all add: create_vuln_key_def trivy_report_def grype_report_def lower_foo)

lemma example_heap_at:
  "example_heap 0 = trivy_report" "example_heap (Suc 0) = grype_report"
  "example_heap 2 = grype_report"
  by (simp_all add: example_heap_def)

lemma create_vuln_key_update:
  "create_vuln_key (f\<lparr>found_by := x\<rparr>) = create_vuln_key f"
  "create_vuln_key (f\<lparr>description := d\<rparr>) = create_vuln_key f"
  "create_vuln_key (f\<lparr>fixed_version := v\<rparr>) = create_vuln_key f"
  "create_vuln_key (f\<lparr>references := r\<rparr>) = create_vuln_key f"
  by (simp_all add: create_vuln_key_def)

lemma example_fields:
  "description trivy_report = ''overflow''" "description grype_report = ''heap overflow in foo''"
  "fixed_version trivy_report = []" "fixed_version grype_report = ''1.1''"
  "found_by trivy_report = None" "found_by grype_report = None"
  by (simp_all add: trivy_report_def grype_report_def)

lemma merge_grype_twice:
  "merge_vulnerabilities example_heap [] [1, 2] = (h', out, stats) \<Longrightarrow>
     out = [1] \<and> found_by (h' 1) = Some [''grype'', ''grype''] \<and>
     both stats = 1 \<and> grype_only stats = 1 \<and> trivy_only stats = 0"
  by (auto simp: merge_vulnerabilities_def add_grype_def Let_def example_heap_at example_keys
        merge_into_def create_vuln_key_update example_fields)

text \<open>
  Claim C7 does not hold of the code. When the second scanner reports one key twice, the
  second report finds the key in \<open>merged\<close> and appends \<open>grype\<close> to \<open>found_by\<close>
  once more. For two Grype reports of one vulnerability and no Trivy report the merged
  finding has \<open>found_by = [grype, grype]\<close>, and the statistics count one finding
  found by both scanners.
\<close>

theorem merge_found_by_repeats_grype:
  "(case merge_vulnerabilities example_heap [] [1, 2] of (h', out, stats) \<Rightarrow>
      out = [1] \<and> found_by (h' 1) = Some [''grype'', ''grype''] \<and>
      both stats = 1 \<and> grype_only stats = 1 \<and> trivy_only stats = 0)"
  using merge_grype_twice by (cases "merge_vulnerabilities example_heap [] [1, 2]") auto

lemma merge_example:
  "merge_vulnerabilities example_heap [0] [1] = (h', out, stats) \<Longrightarrow>
     out = [0] \<and> found_by (h' 0) = Some [''trivy'', ''grype''] \<and>
     description (h' 0) = ''heap overflow in foo'' \<and> fixed_version (h' 0) = ''1.1'' \<and>
     h' 1 = grype_report \<and>
     both stats = 1 \<and> grype_only stats = 0 \<and> trivy_only stats = 0"
  by (auto simp: merge_vulnerabilities_def add_trivy_def add_grype_def Let_def example_heap_at
        example_keys merge_into_def create_vuln_key_update example_fields)

text \<open>
  The claim C8 as stated fails: after merging the Trivy report at address 0 with the Grype
  report at address 1, the object at address 0, a finding of the first input sequence,
  has the description of the Grype report and a \<open>found_by\<close> list it did not have.
\<close>

theorem merge_mutates_counterexample:
  "(case merge_vulnerabilities example_heap [0] [1] of (h', out, stats) \<Rightarrow>
      description (example_heap 0) = ''overflow'' \<and>
      description (h' 0) = ''heap overflow in foo'' \<and>
      found_by (example_heap 0) = None \<and>
      found_by (h' 0) = Some [''trivy'', ''grype''] \<and> out = [0])"
proof (cases "merge_vulnerabilities example_heap [0] [1]")
  case (fields h' out stats)
  from merge_example[OF fields] fields show ?thesis
    by (simp add: example_heap_at example_fields)
qed

theorem merge_with_itself_witness:
  "(case merge_vulnerabilities example_heap [0, 1] [0, 1] of (h', out, stats) \<Rightarrow>
      distinct (map (\<lambda>a. create_vuln_key (h' a)) out) \<and>
      both stats = 2 \<and> trivy_only stats = 0 \<and> grype_only stats = 0)"
  using merge_with_itself[where h = example_heap and S = "[0, 1]"] by simp

theorem merge_changes_findings_in_place_witness:
  "(case merge_vulnerabilities example_heap [0] [1] of (h', out, stats) \<Rightarrow>
      out = [0] \<and> 5 \<notin> set [0 :: nat] \<union> set out \<and> h' 5 = example_heap 5 \<and>
      same_fixed_fields (example_heap 0) (h' 0) \<and> found_by (h' 0) \<noteq> None)"
proof (cases "merge_vulnerabilities example_heap [0] [1]")
  case (fields h' out stats)
  from merge_example[OF fields] have out: "out = [0]" by simp
  from merge_changes_findings_in_place[where h = example_heap and ts = "[0]" and gs = "[1]"]
  have fixed: "same_fixed_fields (example_heap 0) (h' 0)"
    and frame: "5 \<notin> set [0 :: nat] \<union> set out \<longrightarrow> h' 5 = example_heap 5"
    and fb: "\<forall>a \<in> set [0] \<union> set out. found_by (h' a) \<noteq> None"
    unfolding fields by (simp_all del: not_None_eq)
  have notin: "5 \<notin> set [0 :: nat] \<union> set out"
    by (simp add: out)
  from fb have fb0: "found_by (h' 0) \<noteq> None"
    by (simp del: not_None_eq)
  from out notin frame fixed fb0 show ?thesis
    unfolding fields by (simp del: not_None_eq)
qed


section \<open>Properties of compare.py: the Markdown report\<close>

lemma has_changes_loop_iff:
  "has_changes_loop p c sevs \<longleftrightarrow> (\<exists>sev \<in> set sevs. get0 p sev \<noteq> get0 c sev)"
  by (induction sevs) auto




















lemma entry_id_image_data: "entry_id (image_data r) = image_name r"
  by (simp add: entry_id_def image_data_def)











text \<open>Two images of one name after the last \<open>/\<close>: the report has the row of the later
  one only, although the counts of the earlier one changed.\<close>

lemma mirror_changed:
  "pair_changed (image_data mirror_a_before, image_data mirror_a_after)"
  by (simp add: pair_changed_def report_severities_def image_data_def get0_def
        total_block_severity mirror_a_before_def mirror_a_after_def)

lemma mirror_names:
  "entry_name (image_data mirror_a_before) = ''x:1''"
  "entry_name (image_data mirror_a_after) = ''x:1''"
  "entry_name (image_data mirror_b) = ''x:1''"
  by (simp_all add: entry_name_def entry_id_image_data get_image_name_def
        mirror_a_before_def mirror_a_after_def mirror_b_def)

lemma mirror_not_changed: "\<not> pair_changed (image_data mirror_b, image_data mirror_b)"
  by (simp add: pair_changed_def has_changes_loop_iff)

lemma report_lines_same_name:
  "report_lines mirror_snapshot_before mirror_snapshot_after =
       Inr [''## '' @ magnifier @ '' Vulnerability Summary'' @ newline,
            ''| Image | Before | After | Change |'',
            ''|---|---:|---:|---:|'',
            pair_row (image_data mirror_b, image_data mirror_b),
            [], ''### Breakdown by Severity'' @ newline]"
proof -
  have names: "get_image_name ''a/x:1'' = ''x:1''" "get_image_name ''b/x:1'' = ''x:1''"
    by (simp_all add: get_image_name_def)
  have ip: "index_images (images mirror_snapshot_before) []
      = Inr [(''a/x:1'', image_data mirror_a_before), (''b/x:1'', image_data mirror_b)]"
    by (simp add: mirror_snapshot_before_def images_saved e_image_image_data
          mirror_a_before_def mirror_b_def)
  have ic: "index_images (images mirror_snapshot_after) []
      = Inr [(''a/x:1'', image_data mirror_a_after), (''b/x:1'', image_data mirror_b)]"
    by (simp add: mirror_snapshot_after_def images_saved e_image_image_data
          mirror_a_after_def mirror_b_def)
  have bn: "by_name [(''a/x:1'', u), (''b/x:1'', v)] = [(''x:1'', (v, ''b/x:1''))]" for u v
    by (simp add: by_name_def names)
  have idb: "entry_id (image_data mirror_b) = ''b/x:1''"
    by (simp add: entry_id_image_data mirror_b_def)
  show ?thesis
    using mirror_not_changed
    by (simp add: report_lines_def ip ic bn all_images_def Let_def summary_row_def
          breakdown_section_def pair_row_def pair_changed_def idb)
qed

end
